theory Spec2Isabelle
  imports Main "HOL-Library.Word"
begin

section \<open>Python values used by the action\<close>

text \<open>
  The module under verification is \<^verbatim>\<open>launch_ros_sandbox/actions/load_docker_nodes.py\<close>.
  A Python \<^verbatim>\<open>str\<close> is a sequence of Unicode code points, so it is modelled as a list of
  naturals; \<open>ustr\<close> turns an ASCII literal into such a string. A \<^verbatim>\<open>bytes\<close> object is a
  list of 8-bit words.
\<close>

type_synonym pystr = "nat list"

type_synonym byte = "8 word"

definition ustr :: "string \<Rightarrow> pystr" where
  "ustr s = map of_char s"

text \<open>The exceptions that occur in the module and in the library calls it makes.\<close>

datatype error =
    ImageNotFound
  | ValueError string
  | RuntimeError string
  | AttributeError
  | UnicodeDecodeError
  | CancelledError

datatype outcome = Returned | Raised error

section \<open>The command run inside the container\<close>

subsection \<open>\<^verbatim>\<open>shlex.split\<close>\<close>

text \<open>
  \<^verbatim>\<open>_containerized_cmd\<close> tokenizes the entrypoint with the standard library's
  \<^verbatim>\<open>shlex.split(s)\<close>, that is a \<^verbatim>\<open>shlex\<close> lexer in POSIX mode with
  \<^verbatim>\<open>whitespace_split = True\<close>, no comment characters and no punctuation characters.
  \<open>read_tokens\<close> follows \<^verbatim>\<open>shlex.read_token\<close> character by character: \<open>st\<close> is
  \<^verbatim>\<open>self.state\<close>, \<open>esc\<close> is \<^verbatim>\<open>escapedstate\<close>, \<open>quoted\<close> and \<open>tok\<close> are the
  local flag and \<^verbatim>\<open>self.token\<close>. The empty input list is the end of the stream, where
  the lexer raises \<^verbatim>\<open>ValueError\<close> inside a quotation or after an escape character.
\<close>

definition whitespace :: "nat list" where
  "whitespace = ustr [CHR '' '', CHR 0x09, CHR 0x0D, CHR 0x0A]"

definition quotes :: "nat list" where
  "quotes = ustr [CHR 0x27, CHR 0x22]"

definition escape :: "nat list" where
  "escape = ustr [CHR 0x5C]"

definition escapedquotes :: "nat list" where
  "escapedquotes = ustr [CHR 0x22]"

datatype lexstate = St_ws | St_word | St_quote nat | St_escape nat

fun is_quote_state :: "lexstate \<Rightarrow> bool" where
  "is_quote_state (St_quote q) = True"
| "is_quote_state _ = False"

fun state_char :: "lexstate \<Rightarrow> nat" where
  "state_char St_ws = 32"
| "state_char St_word = 97"
| "state_char (St_quote q) = q"
| "state_char (St_escape e) = e"

definition emit_token :: "bool \<Rightarrow> pystr \<Rightarrow> error + pystr list \<Rightarrow> error + pystr list" where
  "emit_token quoted tok rest =
     (if \<not> quoted \<and> tok = [] then Inr []
      else case rest of Inl e \<Rightarrow> Inl e | Inr toks \<Rightarrow> Inr (tok # toks))"

fun read_tokens ::
  "lexstate \<Rightarrow> lexstate \<Rightarrow> bool \<Rightarrow> pystr \<Rightarrow> pystr \<Rightarrow> error + pystr list" where
  "read_tokens St_ws esc quoted tok [] = emit_token quoted tok (Inr [])"
| "read_tokens St_word esc quoted tok [] = emit_token quoted tok (Inr [])"
| "read_tokens (St_quote q) esc quoted tok [] = Inl (ValueError ''No closing quotation'')"
| "read_tokens (St_escape e) esc quoted tok [] = Inl (ValueError ''No escaped character'')"
| "read_tokens St_ws esc quoted tok (c # cs) =
     (if c \<in> set whitespace then
        (if tok \<noteq> [] \<or> quoted
         then emit_token quoted tok (read_tokens St_ws St_ws False [] cs)
         else read_tokens St_ws esc quoted tok cs)
      else if c \<in> set escape then read_tokens (St_escape c) St_word quoted tok cs
      else if c \<in> set quotes then read_tokens (St_quote c) esc quoted tok cs
      else read_tokens St_word esc quoted [c] cs)"
| "read_tokens (St_quote q) esc quoted tok (c # cs) =
     (if c = q then read_tokens St_word esc True tok cs
      else if c \<in> set escape \<and> q \<in> set escapedquotes
        then read_tokens (St_escape c) (St_quote q) True tok cs
      else read_tokens (St_quote q) esc True (tok @ [c]) cs)"
| "read_tokens (St_escape e) esc quoted tok (c # cs) =
     (let tok1 = (if is_quote_state esc \<and> c \<noteq> e \<and> c \<noteq> state_char esc
                  then tok @ [e] else tok)
      in read_tokens esc esc quoted (tok1 @ [c]) cs)"
| "read_tokens St_word esc quoted tok (c # cs) =
     (if c \<in> set whitespace then
        (if tok \<noteq> [] \<or> quoted
         then emit_token quoted tok (read_tokens St_ws St_ws False [] cs)
         else read_tokens St_ws esc quoted tok cs)
      else if c \<in> set quotes then read_tokens (St_quote c) esc quoted tok cs
      else if c \<in> set escape then read_tokens (St_escape c) St_word quoted tok cs
      else read_tokens St_word esc quoted (tok @ [c]) cs)"

definition shlex_split :: "pystr \<Rightarrow> error + pystr list" where
  "shlex_split s = read_tokens St_ws St_ws False [] s"

subsection \<open>\<^verbatim>\<open>_containerized_cmd\<close>\<close>

text \<open>
  \<^verbatim>\<open>return shlex.split(entrypoint) + ['ros2', 'run', package, executable]\<close>;
  an exception of the tokenizer leaves the function.
\<close>

definition containerized_cmd :: "pystr \<Rightarrow> pystr \<Rightarrow> pystr \<Rightarrow> error + pystr list" where
  "containerized_cmd entrypoint package executable =
     (case shlex_split entrypoint of
        Inl e \<Rightarrow> Inl e
      | Inr toks \<Rightarrow> Inr (toks @ [ustr ''ros2'', ustr ''run'', package, executable]))"

section \<open>The log pump\<close>

subsection \<open>\<^verbatim>\<open>bytes.decode('utf-8')\<close> and \<^verbatim>\<open>str.strip()\<close>\<close>

text \<open>
  The strict UTF-8 decoder of Python accepts exactly the well-formed byte sequences of the
  Unicode standard (no overlong forms, no surrogates, nothing above U+10FFFF) and raises
  \<^verbatim>\<open>UnicodeDecodeError\<close> on everything else. \<open>utf8_decode\<close> works on the byte values.
\<close>

definition cont :: "nat \<Rightarrow> bool" where
  "cont b \<longleftrightarrow> 0x80 \<le> b \<and> b \<le> 0xBF"

definition cbits :: "nat \<Rightarrow> nat" where
  "cbits b = b - 0x80"

fun utf8_decode :: "nat list \<Rightarrow> pystr option" where
  "utf8_decode [] = Some []"
| "utf8_decode (b0 # bs) =
     (if b0 \<le> 0x7F then map_option ((#) b0) (utf8_decode bs)
      else if 0xC2 \<le> b0 \<and> b0 \<le> 0xDF then
        (case bs of
           b1 # r \<Rightarrow>
             if cont b1
             then map_option ((#) ((b0 - 0xC0) * 64 + cbits b1)) (utf8_decode r)
             else None
         | _ \<Rightarrow> None)
      else if 0xE0 \<le> b0 \<and> b0 \<le> 0xEF then
        (case bs of
           b1 # b2 # r \<Rightarrow>
             if (if b0 = 0xE0 then 0xA0 else 0x80) \<le> b1 \<and> b1 \<le> (if b0 = 0xED then 0x9F else 0xBF)
                \<and> cont b2
             then map_option ((#) ((b0 - 0xE0) * 4096 + cbits b1 * 64 + cbits b2))
                    (utf8_decode r)
             else None
         | _ \<Rightarrow> None)
      else if 0xF0 \<le> b0 \<and> b0 \<le> 0xF4 then
        (case bs of
           b1 # b2 # b3 # r \<Rightarrow>
             if (if b0 = 0xF0 then 0x90 else 0x80) \<le> b1 \<and> b1 \<le> (if b0 = 0xF4 then 0x8F else 0xBF)
                \<and> cont b2 \<and> cont b3
             then map_option
                    ((#) ((b0 - 0xF0) * 262144 + cbits b1 * 4096 + cbits b2 * 64 + cbits b3))
                    (utf8_decode r)
             else None
         | _ \<Rightarrow> None)
      else None)"

definition bytes_decode :: "byte list \<Rightarrow> error + pystr" where
  "bytes_decode bs =
     (case utf8_decode (map unat bs) of None \<Rightarrow> Inl UnicodeDecodeError | Some t \<Rightarrow> Inr t)"

text \<open>
  The reference for the decoder: the UTF-8 encoding form of the Unicode standard, which
  writes a scalar value (a code point up to U+10FFFF that is no surrogate) as one to four
  bytes. It is not part of the module; the decoder is compared with it below.
\<close>

definition valid_cp :: "nat \<Rightarrow> bool" where
  "valid_cp cp \<longleftrightarrow> cp < 0x110000 \<and> \<not> (0xD800 \<le> cp \<and> cp \<le> 0xDFFF)"

definition utf8_encode_cp :: "nat \<Rightarrow> nat list" where
  "utf8_encode_cp cp =
     (if cp < 0x80 then [cp]
      else if cp < 0x800 then [0xC0 + cp div 64, 0x80 + cp mod 64]
      else if cp < 0x10000 then
        [0xE0 + cp div 4096, 0x80 + cp div 64 mod 64, 0x80 + cp mod 64]
      else [0xF0 + cp div 262144, 0x80 + cp div 4096 mod 64, 0x80 + cp div 64 mod 64,
            0x80 + cp mod 64])"

definition utf8_encode :: "pystr \<Rightarrow> nat list" where
  "utf8_encode t = concat (map utf8_encode_cp t)"

text \<open>
  \<^verbatim>\<open>str.strip()\<close> without an argument removes the leading and the trailing characters
  that Python counts as whitespace.
\<close>

definition isspace :: "nat \<Rightarrow> bool" where
  "isspace c \<longleftrightarrow>
     (0x09 \<le> c \<and> c \<le> 0x0D) \<or> (0x1C \<le> c \<and> c \<le> 0x20) \<or> c = 0x85 \<or> c = 0xA0
     \<or> c = 0x1680 \<or> (0x2000 \<le> c \<and> c \<le> 0x200A) \<or> c = 0x2028 \<or> c = 0x2029
     \<or> c = 0x202F \<or> c = 0x205F \<or> c = 0x3000"

definition strip :: "pystr \<Rightarrow> pystr" where
  "strip t = rev (dropWhile isspace (rev (dropWhile isspace t)))"

subsection \<open>Log chunks\<close>

text \<open>
  The stream returned by \<^verbatim>\<open>exec_run\<close> yields Python objects. The pump tests their truth
  value, tests \<^verbatim>\<open>isinstance(log, GeneratorType)\<close> and calls \<^verbatim>\<open>.decode('utf-8')\<close>,
  so a chunk is modelled by the kinds of object that differ in these three respects.
  A generator is given by the finite list of the objects it yields.
\<close>

datatype pyval =
    PNone
  | PBytes "byte list"
  | PStr pystr
  | PInt int
  | PGen "pyval list"

datatype pytype = T_NoneType | T_bytes | T_str | T_int | T_generator

fun type_of :: "pyval \<Rightarrow> pytype" where
  "type_of PNone = T_NoneType"
| "type_of (PBytes bs) = T_bytes"
| "type_of (PStr t) = T_str"
| "type_of (PInt i) = T_int"
| "type_of (PGen xs) = T_generator"

text \<open>\<^verbatim>\<open>bool(log)\<close>: \<^verbatim>\<open>None\<close>, empty bytes, the empty string and zero are false.\<close>

fun truthy :: "pyval \<Rightarrow> bool" where
  "truthy PNone = False"
| "truthy (PBytes bs) = (bs \<noteq> [])"
| "truthy (PStr t) = (t \<noteq> [])"
| "truthy (PInt i) = (i \<noteq> 0)"
| "truthy (PGen xs) = True"

text \<open>
  \<^verbatim>\<open>log.decode('utf-8').strip()\<close>: only \<^verbatim>\<open>bytes\<close> has a \<^verbatim>\<open>decode\<close> method, on
  any other object the attribute lookup raises \<^verbatim>\<open>AttributeError\<close>.
\<close>

fun decode_strip :: "pyval \<Rightarrow> error + pystr" where
  "decode_strip (PBytes bs) =
     (case bytes_decode bs of Inl e \<Rightarrow> Inl e | Inr t \<Rightarrow> Inr (strip t))"
| "decode_strip _ = Inl AttributeError"

subsection \<open>Logger calls\<close>

datatype level = INFO | DEBUG | WARN | ERROR | EXCEPTION

text \<open>
  A message is a string, a format string with the arguments of \<^verbatim>\<open>str.format\<close>, or an
  exception object handed to the logger.
\<close>

datatype fmtarg = ArgStr pystr | ArgCmd "pystr list" | ArgType pytype

datatype message = Text pystr | Format string "fmtarg list" | ExcObj error

datatype logrecord = Log level message

subsection \<open>\<^verbatim>\<open>_handle_logs\<close>\<close>

text \<open>
  The inner loop \<^verbatim>\<open>for l in log: self.__logger.info(l.decode('utf-8').strip())\<close> stands
  outside any \<^verbatim>\<open>try\<close>: an exception leaves the loop and the function. The result is the
  outcome and the records written so far.
\<close>

fun forward_inner :: "pyval list \<Rightarrow> outcome \<times> logrecord list" where
  "forward_inner [] = (Returned, [])"
| "forward_inner (l # ls) =
     (case decode_strip l of
        Inl e \<Rightarrow> (Raised e, [])
      | Inr t \<Rightarrow>
          (case forward_inner ls of (out, recs) \<Rightarrow> (out, Log INFO (Text t) # recs)))"

text \<open>The body of the outer loop for one chunk.\<close>

definition handle_chunk :: "pyval \<Rightarrow> outcome \<times> logrecord list" where
  "handle_chunk log =
     (if \<not> truthy log then (Returned, [])
      else case log of
        PGen ls \<Rightarrow> forward_inner ls
      | _ \<Rightarrow>
         (case decode_strip log of
            Inr t \<Rightarrow> (Returned, [Log INFO (Text t)])
          | Inl e \<Rightarrow>
              if e = UnicodeDecodeError \<or> e = AttributeError
              then (Returned,
                    [Log EXCEPTION (Format ''Unable to print log of type {}'' [ArgType (type_of log)])])
              else (Raised e, [])))"

fun handle_logs :: "pyval list \<Rightarrow> outcome \<times> logrecord list" where
  "handle_logs [] = (Returned, [])"
| "handle_logs (log # rest) =
     (case handle_chunk log of
        (Raised e, recs) \<Rightarrow> (Raised e, recs)
      | (Returned, recs) \<Rightarrow>
          (case handle_logs rest of (out, recs') \<Rightarrow> (out, recs @ recs')))"

section \<open>The action \<^verbatim>\<open>LoadDockerNodes\<close>\<close>

subsection \<open>Collaborators\<close>

text \<open>
  The policy and the node descriptions come from \<^verbatim>\<open>launch_ros_sandbox.descriptions\<close>;
  the action reads the attributes below. A node's package and executable are lists of
  substitutions of the launch library, kept abstract as the type \<open>'s\<close> and resolved by
  \<^verbatim>\<open>perform_substitutions\<close> of the launch context.
\<close>

record docker_policy =
  repository :: pystr
  tag :: pystr
  image_name :: pystr
  container_name :: pystr
  entrypoint :: pystr
  run_args :: "(pystr \<times> pystr) list option"

record 's sandboxed_node =
  package :: 's
  node_executable :: 's

datatype future = Future nat

text \<open>
  The task created by the event loop. \<open>cancel_raises\<close> says whether the task's
  \<^verbatim>\<open>cancel()\<close> raises \<^verbatim>\<open>CancelledError\<close> at the call site, the case the shutdown
  handler catches; asyncio's own \<^verbatim>\<open>Task.cancel\<close> returns a flag and does not raise.
\<close>

record task =
  task_id :: nat
  cancel_raises :: bool

datatype container = Container nat

text \<open>
  The launch context: the substitution function, and the future and the task that
  \<^verbatim>\<open>create_future\<close> and \<^verbatim>\<open>asyncio_loop.create_task\<close> hand out.
\<close>

record 's launch_context =
  perform_substitutions :: "'s \<Rightarrow> pystr"
  create_future :: future
  create_task :: task

text \<open>
  The Docker daemon behind \<^verbatim>\<open>self._docker_client\<close> and the container objects: what
  \<^verbatim>\<open>images.pull\<close> and \<^verbatim>\<open>containers.run\<close> answer (an exception or a value), and the
  log stream \<^verbatim>\<open>exec_run(cmd, tty=True, stream=True)\<close> returns.
\<close>

record docker =
  images_pull :: "pystr \<Rightarrow> pystr \<Rightarrow> error + unit"
  containers_run :: "pystr \<Rightarrow> pystr \<Rightarrow> (pystr \<times> pystr) list \<Rightarrow> error + container"
  exec_run :: "container \<Rightarrow> pystr list \<Rightarrow> pyval list"

text \<open>
  \<^verbatim>\<open>ThreadPoolExecutor(max_workers=n)\<close> of \<^verbatim>\<open>concurrent.futures\<close> rejects
  \<^verbatim>\<open>n <= 0\<close>; \<^verbatim>\<open>submit\<close> raises once the pool has been shut down.
\<close>

record executor =
  max_workers :: int
  is_shutdown :: bool

definition ThreadPoolExecutor :: "int \<Rightarrow> error + executor" where
  "ThreadPoolExecutor n =
     (if n \<le> 0 then Inl (ValueError ''max_workers must be greater than 0'')
      else Inr \<lparr>max_workers = n, is_shutdown = False\<rparr>)"

subsection \<open>State and effects\<close>

text \<open>
  Every call that leaves the object is recorded, in order, in \<open>trace\<close>: the logger calls
  of the action itself, the calls to Docker, to the executor, to the future and to the task.
\<close>

datatype event =
    Logged logrecord
  | ImagesPull pystr pystr
  | ContainersRun pystr pystr "(pystr \<times> pystr) list"
  | ExecRun container "pystr list"
  | RunInExecutor "pyval list"
  | RegisterOnShutdown
  | TaskCancel task
  | ExecutorShutdown
  | FutureCancel future
  | ContainerStop container

record 's load_docker_nodes =
  policy :: docker_policy
  node_descriptions :: "'s sandboxed_node list"
  completed_future :: "future option"
  started_task :: "task option"
  container :: "container option"
  executor :: executor
  trace :: "event list"

definition emit :: "event \<Rightarrow> 's load_docker_nodes \<Rightarrow> 's load_docker_nodes" where
  "emit e s = s\<lparr>trace := trace s @ [e]\<rparr>"

definition logger :: "level \<Rightarrow> message \<Rightarrow> 's load_docker_nodes \<Rightarrow> 's load_docker_nodes" where
  "logger lvl m s = emit (Logged (Log lvl m)) s"

subsection \<open>\<^verbatim>\<open>__init__\<close>\<close>

text \<open>
  The last statement builds the pool with \<^verbatim>\<open>max_workers=len(node_descriptions)\<close>; when
  it raises, no instance is constructed.
\<close>

definition init ::
  "docker_policy \<Rightarrow> 's sandboxed_node list \<Rightarrow> error + 's load_docker_nodes" where
  "init p nodes =
     (case ThreadPoolExecutor (int (length nodes)) of
        Inl e \<Rightarrow> Inl e
      | Inr ex \<Rightarrow>
          Inr \<lparr>policy = p, node_descriptions = nodes, completed_future = None,
               started_task = None, container = None, executor = ex, trace = []\<rparr>)"

subsection \<open>\<^verbatim>\<open>_pull_docker_image\<close> and \<^verbatim>\<open>_start_docker_container\<close>\<close>

definition pull_docker_image ::
  "docker \<Rightarrow> 's load_docker_nodes \<Rightarrow> outcome \<times> 's load_docker_nodes" where
  "pull_docker_image d s =
     (let s1 = logger INFO (Format ''Pulling image {}'' [ArgStr (image_name (policy s))]) s;
          s2 = emit (ImagesPull (repository (policy s)) (tag (policy s))) s1
      in case images_pull d (repository (policy s)) (tag (policy s)) of
           Inl e \<Rightarrow> (Raised e, s2)
         | Inr u \<Rightarrow> (Returned, s2))"

definition start_docker_container ::
  "docker \<Rightarrow> 's load_docker_nodes \<Rightarrow> outcome \<times> 's load_docker_nodes" where
  \<open>start_docker_container d s =
     (let tmp_run_args = (case run_args (policy s) of None \<Rightarrow> [] | Some a \<Rightarrow> a);
          s1 = emit (ContainersRun (image_name (policy s)) (container_name (policy s))
                       tmp_run_args) s
      in case containers_run d (image_name (policy s)) (container_name (policy s))
                tmp_run_args of
           Inl e \<Rightarrow> (Raised e, s1)
         | Inr c \<Rightarrow>
             (Returned,
              logger INFO (Format ''Running Docker container: "{}"''
                             [ArgStr (container_name (policy s))])
                (s1\<lparr>container := Some c\<rparr>)))\<close>

subsection \<open>\<^verbatim>\<open>_load_nodes_in_docker\<close>\<close>

text \<open>
  One iteration of the loop over the node descriptions. \<^verbatim>\<open>self._container.exec_run\<close>
  reads the attribute again, and \<^verbatim>\<open>run_in_executor\<close> submits \<^verbatim>\<open>_handle_logs\<close> with
  the log stream to the pool.
\<close>

definition launch_node ::
  "'s launch_context \<Rightarrow> docker \<Rightarrow> 's sandboxed_node \<Rightarrow> 's load_docker_nodes
     \<Rightarrow> outcome \<times> 's load_docker_nodes" where
  \<open>launch_node ctx d description s =
     (let package_name = perform_substitutions ctx (package description);
          executable_name = perform_substitutions ctx (node_executable description)
      in case containerized_cmd (entrypoint (policy s)) package_name executable_name of
           Inl e \<Rightarrow> (Raised e, s)
         | Inr cmd \<Rightarrow>
            (case container s of
               None \<Rightarrow> (Raised AttributeError, s)
             | Some c \<Rightarrow>
                 (let log_generator = exec_run d c cmd;
                      s1 = emit (ExecRun c cmd) s
                  in if is_shutdown (executor s1)
                     then (Raised (RuntimeError ''cannot schedule new futures after shutdown''),
                           s1)
                     else (Returned,
                           logger DEBUG (Format ''Running "{}" in container: "{}"''
                                           [ArgCmd cmd, ArgStr (container_name (policy s))])
                             (emit (RunInExecutor log_generator) s1)))))\<close>

fun launch_loop ::
  "'s launch_context \<Rightarrow> docker \<Rightarrow> 's sandboxed_node list \<Rightarrow> 's load_docker_nodes
     \<Rightarrow> outcome \<times> 's load_docker_nodes" where
  "launch_loop ctx d [] s = (Returned, s)"
| "launch_loop ctx d (description # rest) s =
     (case launch_node ctx d description s of
        (Raised e, s1) \<Rightarrow> (Raised e, s1)
      | (Returned, s1) \<Rightarrow> launch_loop ctx d rest s1)"

definition no_container_error :: "'s load_docker_nodes \<Rightarrow> 's load_docker_nodes" where
  "no_container_error s =
     logger ERROR (Text (ustr (''Unable to load nodes into Docker container: '' @
                               ''no active Docker container!''))) s"

definition load_nodes_in_docker ::
  "'s launch_context \<Rightarrow> docker \<Rightarrow> 's load_docker_nodes \<Rightarrow> outcome \<times> 's load_docker_nodes" where
  "load_nodes_in_docker ctx d s =
     (case container s of
        None \<Rightarrow> (Returned, no_container_error s)
      | Some c \<Rightarrow> launch_loop ctx d (node_descriptions s) s)"

subsection \<open>\<^verbatim>\<open>_start_docker_nodes\<close>\<close>

text \<open>The two \<^verbatim>\<open>except ImageNotFound\<close> handlers; the second one runs under the lock.\<close>

definition pull_not_found :: "'s load_docker_nodes \<Rightarrow> 's load_docker_nodes" where
  \<open>pull_not_found s =
     logger DEBUG (ExcObj ImageNotFound)
       (logger WARN (Format ''Image "{}" could not be pulled but may be found locally.''
                       [ArgStr (image_name (policy s))]) s)\<close>

definition start_not_found_log :: "'s load_docker_nodes \<Rightarrow> 's load_docker_nodes" where
  \<open>start_not_found_log s =
     logger DEBUG (ExcObj ImageNotFound)
       (logger ERROR (Format ''Image "{}" could not be found; execution of container "{}" failed.''
                        [ArgStr (image_name (policy s)), ArgStr (container_name (policy s))]) s)\<close>

definition cancel_completed_future :: "'s load_docker_nodes \<Rightarrow> 's load_docker_nodes" where
  "cancel_completed_future s =
     (case completed_future s of
        None \<Rightarrow> s
      | Some f \<Rightarrow> (emit (FutureCancel f) s)\<lparr>completed_future := None\<rparr>)"

definition start_docker_nodes ::
  "'s launch_context \<Rightarrow> docker \<Rightarrow> 's load_docker_nodes \<Rightarrow> outcome \<times> 's load_docker_nodes" where
  "start_docker_nodes ctx d s =
     (case pull_docker_image d s of (o1, s1) \<Rightarrow>
        if o1 \<noteq> Returned \<and> o1 \<noteq> Raised ImageNotFound then (o1, s1)
        else
          (let s2 = (if o1 = Raised ImageNotFound then pull_not_found s1 else s1)
           in case start_docker_container d s2 of (o2, s3) \<Rightarrow>
                if o2 = Raised ImageNotFound
                then (Returned, cancel_completed_future (start_not_found_log s3))
                else if o2 \<noteq> Returned then (o2, s3)
                else load_nodes_in_docker ctx d s3))"

subsection \<open>\<^verbatim>\<open>execute\<close> and \<^verbatim>\<open>__on_shutdown\<close>\<close>

definition execute :: "'s launch_context \<Rightarrow> 's load_docker_nodes \<Rightarrow> 's load_docker_nodes" where
  "execute ctx s =
     ((emit RegisterOnShutdown s)
        \<lparr>completed_future := Some (create_future ctx),
         started_task := Some (create_task ctx)\<rparr>)"

text \<open>
  The handler, whose body runs under \<^verbatim>\<open>self._shutdown_lock\<close>. The test of
  \<^verbatim>\<open>self._container\<close> stands inside the branch for a future that is still set.
\<close>

definition on_shutdown :: "'s load_docker_nodes \<Rightarrow> 's load_docker_nodes" where
  "on_shutdown s =
     (let s1 = (case started_task s of
                  None \<Rightarrow> s
                | Some t \<Rightarrow>
                    if cancel_raises t then (emit (TaskCancel t) s)\<lparr>started_task := None\<rparr>
                    else emit (TaskCancel t) s)
      in case completed_future s1 of
           None \<Rightarrow> s1
         | Some f \<Rightarrow>
             (let s2 = (emit ExecutorShutdown s1)
                         \<lparr>executor := (executor s1)\<lparr>is_shutdown := True\<rparr>\<rparr>;
                  s3 = (emit (FutureCancel f) s2)\<lparr>completed_future := None\<rparr>
              in case container s3 of
                   None \<Rightarrow> s3
                 | Some c \<Rightarrow> (emit (ContainerStop c) s3)\<lparr>container := None\<rparr>))"

section \<open>Interleaving of the startup task and the shutdown handler\<close>

text \<open>
  The startup task and the handler synchronise on \<^verbatim>\<open>self._shutdown_lock\<close> only: the
  handler's body and the cancellation block of the task are atomic, and a shutdown
  notification can arrive between any two other statements of the task. The task is
  therefore cut into steps at these points; \<open>pc\<close> says where it stands.
\<close>

datatype 's pc =
    At_pull
  | At_start
  | At_cancel
  | At_load
  | At_loop "'s sandboxed_node list"
  | Finished outcome

fun task_step ::
  "'s launch_context \<Rightarrow> docker \<Rightarrow> 's pc \<times> 's load_docker_nodes
     \<Rightarrow> 's pc \<times> 's load_docker_nodes" where
  "task_step ctx d (At_pull, s) =
     (case pull_docker_image d s of (o1, s1) \<Rightarrow>
        if o1 \<noteq> Returned \<and> o1 \<noteq> Raised ImageNotFound then (Finished o1, s1)
        else (At_start, if o1 = Raised ImageNotFound then pull_not_found s1 else s1))"
| "task_step ctx d (At_start, s) =
     (case start_docker_container d s of (o2, s3) \<Rightarrow>
        if o2 = Raised ImageNotFound then (At_cancel, start_not_found_log s3)
        else if o2 \<noteq> Returned then (Finished o2, s3)
        else (At_load, s3))"
| "task_step ctx d (At_cancel, s) = (Finished Returned, cancel_completed_future s)"
| "task_step ctx d (At_load, s) =
     (case container s of
        None \<Rightarrow> (Finished Returned, no_container_error s)
      | Some c \<Rightarrow> (At_loop (node_descriptions s), s))"
| "task_step ctx d (At_loop [], s) = (Finished Returned, s)"
| "task_step ctx d (At_loop (description # rest), s) =
     (case launch_node ctx d description s of
        (Raised e, s1) \<Rightarrow> (Finished (Raised e), s1)
      | (Returned, s1) \<Rightarrow> (At_loop rest, s1))"
| "task_step ctx d (Finished out, s) = (Finished out, s)"

datatype action = Task_step | Shutdown_event

fun step ::
  "'s launch_context \<Rightarrow> docker \<Rightarrow> 's pc \<times> 's load_docker_nodes \<Rightarrow> action
     \<Rightarrow> 's pc \<times> 's load_docker_nodes" where
  "step ctx d cfg Task_step = task_step ctx d cfg"
| "step ctx d (pc, s) Shutdown_event = (pc, on_shutdown s)"

text \<open>
  One lifecycle: \<^verbatim>\<open>execute\<close> registers the handler and creates the future and the task,
  then the steps of the task and the shutdown notifications happen in the order the
  schedule gives.
\<close>

definition lifecycle ::
  "'s launch_context \<Rightarrow> docker \<Rightarrow> action list \<Rightarrow> 's load_docker_nodes
     \<Rightarrow> 's pc \<times> 's load_docker_nodes" where
  "lifecycle ctx d sched s = foldl (step ctx d) (At_pull, execute ctx s) sched"

section \<open>Observations on a trace\<close>

fun exec_cmds :: "event list \<Rightarrow> pystr list list" where
  "exec_cmds [] = []"
| "exec_cmds (ExecRun c cmd # es) = cmd # exec_cmds es"
| "exec_cmds (e # es) = exec_cmds es"

fun workers :: "event list \<Rightarrow> pyval list list" where
  "workers [] = []"
| "workers (RunInExecutor g # es) = g # workers es"
| "workers (e # es) = workers es"

fun future_cancels :: "event list \<Rightarrow> future list" where
  "future_cancels [] = []"
| "future_cancels (FutureCancel f # es) = f # future_cancels es"
| "future_cancels (e # es) = future_cancels es"

fun container_stops :: "event list \<Rightarrow> container list" where
  "container_stops [] = []"
| "container_stops (ContainerStop c # es) = c # container_stops es"
| "container_stops (e # es) = container_stops es"

fun logged :: "level \<Rightarrow> event list \<Rightarrow> message list" where
  "logged lvl [] = []"
| "logged lvl (Logged (Log l m) # es) = (if l = lvl then m # logged lvl es else logged lvl es)"
| "logged lvl (e # es) = logged lvl es"

section \<open>A concrete sandbox\<close>

text \<open>
  The example of the specification: container \<^verbatim>\<open>sbx1\<close>, entrypoint \<^verbatim>\<open>bash -c\<close>, one
  node with package \<^verbatim>\<open>demo_pkg\<close> and executable \<^verbatim>\<open>talker\<close>. The substitutions of the
  node are plain text, so resolving them is the identity. \<open>demo_docker\<close> is a daemon that
  answers every pull and every run with the given results and whose processes print one
  line. \<open>demo_action\<close> is the instance that \<open>init\<close> constructs.
\<close>

definition demo_policy :: docker_policy where
  "demo_policy =
     \<lparr>repository = ustr ''demo_repo'', tag = ustr ''latest'',
      image_name = ustr ''demo_repo:latest'', container_name = ustr ''sbx1'',
      entrypoint = ustr ''bash -c'', run_args = None\<rparr>"

definition demo_node :: "pystr sandboxed_node" where
  "demo_node = \<lparr>package = ustr ''demo_pkg'', node_executable = ustr ''talker''\<rparr>"

definition demo_context :: "pystr launch_context" where
  "demo_context =
     \<lparr>perform_substitutions = (\<lambda>subs. subs), create_future = Future 0,
      create_task = \<lparr>task_id = 0, cancel_raises = False\<rparr>\<rparr>"

definition demo_docker :: "error + unit \<Rightarrow> error + container \<Rightarrow> docker" where
  "demo_docker pulled started =
     \<lparr>images_pull = (\<lambda>r t. pulled), containers_run = (\<lambda>i n a. started),
      exec_run = (\<lambda>c cmd. [PBytes [0x68, 0x69, 0x0A]])\<rparr>"

definition demo_action :: "pystr load_docker_nodes" where
  "demo_action =
     \<lparr>policy = demo_policy, node_descriptions = [demo_node], completed_future = None,
      started_task = None, container = None,
      executor = \<lparr>max_workers = 1, is_shutdown = False\<rparr>, trace = []\<rparr>"

section \<open>Auxiliary facts\<close>

subsection \<open>Observations and state components\<close>

lemma exec_cmds_append: "exec_cmds (xs @ ys) = exec_cmds xs @ exec_cmds ys"
  by (induction xs rule: exec_cmds.induct) simp_all

lemma workers_append: "workers (xs @ ys) = workers xs @ workers ys"
  by (induction xs rule: workers.induct) simp_all

lemma future_cancels_append: "future_cancels (xs @ ys) = future_cancels xs @ future_cancels ys"
  by (induction xs rule: future_cancels.induct) simp_all

lemma container_stops_append: "container_stops (xs @ ys) = container_stops xs @ container_stops ys"
  by (induction xs rule: container_stops.induct) simp_all

lemma logged_append: "logged lvl (xs @ ys) = logged lvl xs @ logged lvl ys"
  by (induction lvl xs rule: logged.induct) simp_all

lemmas obs_append = exec_cmds_append workers_append future_cancels_append
  container_stops_append logged_append

lemma emit_fields:
  "policy (emit e s) = policy s"
  "node_descriptions (emit e s) = node_descriptions s"
  "completed_future (emit e s) = completed_future s"
  "started_task (emit e s) = started_task s"
  "container (emit e s) = container s"
  "executor (emit e s) = executor s"
  "trace (emit e s) = trace s @ [e]"
  by (simp_all add: emit_def)

lemma logger_fields:
  "policy (logger l m s) = policy s"
  "node_descriptions (logger l m s) = node_descriptions s"
  "completed_future (logger l m s) = completed_future s"
  "started_task (logger l m s) = started_task s"
  "container (logger l m s) = container s"
  "executor (logger l m s) = executor s"
  "trace (logger l m s) = trace s @ [Logged (Log l m)]"
  by (simp_all add: logger_def emit_def)

lemmas demo_defs = demo_policy_def demo_node_def demo_context_def demo_docker_def demo_action_def

lemmas shlex_defs = shlex_split_def whitespace_def quotes_def escape_def escapedquotes_def
  emit_token_def ustr_def

lemma shlex_demo: "shlex_split (ustr ''bash -c'') = Inr [ustr ''bash'', ustr ''-c'']"
  by (simp add: shlex_defs)

lemma init_demo: "init demo_policy [demo_node] = Inr demo_action"
  by (simp add: init_def ThreadPoolExecutor_def demo_action_def)

subsection \<open>The launch loop\<close>



lemma pull_fields:
  "policy (snd (pull_docker_image d s)) = policy s"
  "node_descriptions (snd (pull_docker_image d s)) = node_descriptions s"
  "completed_future (snd (pull_docker_image d s)) = completed_future s"
  "started_task (snd (pull_docker_image d s)) = started_task s"
  "container (snd (pull_docker_image d s)) = container s"
  "executor (snd (pull_docker_image d s)) = executor s"
  "trace (snd (pull_docker_image d s)) = trace s @
     [Logged (Log INFO (Format ''Pulling image {}'' [ArgStr (image_name (policy s))])),
      ImagesPull (repository (policy s)) (tag (policy s))]"
  by (simp_all add: pull_docker_image_def Let_def emit_fields logger_fields split: sum.splits)

lemma pull_outcome:
  "fst (pull_docker_image d s) =
     (case images_pull d (repository (policy s)) (tag (policy s)) of
        Inl e \<Rightarrow> Raised e | Inr u \<Rightarrow> Returned)"
  by (simp add: pull_docker_image_def Let_def split: sum.splits)

lemma pull_not_found_fields:
  "policy (pull_not_found s) = policy s"
  "node_descriptions (pull_not_found s) = node_descriptions s"
  "completed_future (pull_not_found s) = completed_future s"
  "started_task (pull_not_found s) = started_task s"
  "container (pull_not_found s) = container s"
  "executor (pull_not_found s) = executor s"
  by (simp_all add: pull_not_found_def logger_fields)


lemma launch_node_frame:
  assumes "launch_node ctx d n s = (out, s1)"
  shows "policy s1 = policy s \<and> node_descriptions s1 = node_descriptions s
    \<and> completed_future s1 = completed_future s \<and> started_task s1 = started_task s
    \<and> container s1 = container s \<and> executor s1 = executor s
    \<and> future_cancels (trace s1) = future_cancels (trace s)
    \<and> container_stops (trace s1) = container_stops (trace s)"
  using assms
  by (auto simp add: launch_node_def Let_def emit_fields logger_fields obs_append
      split: sum.splits option.splits if_splits)


lemma launch_loop_frame:
  assumes "launch_loop ctx d ns s = (out, s1)"
  shows "policy s1 = policy s \<and> node_descriptions s1 = node_descriptions s
    \<and> completed_future s1 = completed_future s \<and> started_task s1 = started_task s
    \<and> container s1 = container s \<and> executor s1 = executor s
    \<and> future_cancels (trace s1) = future_cancels (trace s)
    \<and> container_stops (trace s1) = container_stops (trace s)"
  using assms
proof (induction ns arbitrary: s)
  case Nil
  then show ?case by simp
next
  case (Cons n ns)
  obtain o1 s2 where n: "launch_node ctx d n s = (o1, s2)"
    by (cases "launch_node ctx d n s")
  note f = launch_node_frame[OF n]
  show ?case
  proof (cases o1)
    case Returned
    with Cons.prems n have "launch_loop ctx d ns s2 = (out, s1)" by simp
    from Cons.IH[OF this] f show ?thesis by simp
  next
    case (Raised e)
    with Cons.prems n have "s1 = s2" by simp
    with f show ?thesis by simp
  qed
qed


lemma start_frame:
  assumes "start_docker_container d s = (out, s1)"
  shows "policy s1 = policy s \<and> node_descriptions s1 = node_descriptions s
    \<and> completed_future s1 = completed_future s \<and> started_task s1 = started_task s
    \<and> executor s1 = executor s
    \<and> exec_cmds (trace s1) = exec_cmds (trace s)
    \<and> workers (trace s1) = workers (trace s)
    \<and> future_cancels (trace s1) = future_cancels (trace s)
    \<and> container_stops (trace s1) = container_stops (trace s)"
  using assms
  by (auto simp add: start_docker_container_def Let_def emit_fields logger_fields obs_append
      split: sum.splits)

lemma start_outcome:
  "fst (start_docker_container d s) =
     (case containers_run d (image_name (policy s)) (container_name (policy s))
             (case run_args (policy s) of None \<Rightarrow> [] | Some a \<Rightarrow> a) of
        Inl e \<Rightarrow> Raised e | Inr c \<Rightarrow> Returned)"
  by (simp add: start_docker_container_def Let_def split: sum.splits)


lemma start_not_found_log_fields:
  "policy (start_not_found_log s) = policy s"
  "node_descriptions (start_not_found_log s) = node_descriptions s"
  "completed_future (start_not_found_log s) = completed_future s"
  "started_task (start_not_found_log s) = started_task s"
  "container (start_not_found_log s) = container s"
  "executor (start_not_found_log s) = executor s"
  "exec_cmds (trace (start_not_found_log s)) = exec_cmds (trace s)"
  "workers (trace (start_not_found_log s)) = workers (trace s)"
  "future_cancels (trace (start_not_found_log s)) = future_cancels (trace s)"
  "container_stops (trace (start_not_found_log s)) = container_stops (trace s)"
  by (simp_all add: start_not_found_log_def logger_fields obs_append)

lemma pull_not_found_obs:
  "exec_cmds (trace (pull_not_found s)) = exec_cmds (trace s)"
  "workers (trace (pull_not_found s)) = workers (trace s)"
  "future_cancels (trace (pull_not_found s)) = future_cancels (trace s)"
  "container_stops (trace (pull_not_found s)) = container_stops (trace s)"
  by (simp_all add: pull_not_found_def logger_fields obs_append)

lemma pull_obs:
  "exec_cmds (trace (snd (pull_docker_image d s))) = exec_cmds (trace s)"
  "workers (trace (snd (pull_docker_image d s))) = workers (trace s)"
  "future_cancels (trace (snd (pull_docker_image d s))) = future_cancels (trace s)"
  "container_stops (trace (snd (pull_docker_image d s))) = container_stops (trace s)"
  by (simp_all add: pull_fields obs_append)

lemma cancel_completed_future_fields:
  "policy (cancel_completed_future s) = policy s"
  "node_descriptions (cancel_completed_future s) = node_descriptions s"
  "completed_future (cancel_completed_future s) = None"
  "started_task (cancel_completed_future s) = started_task s"
  "container (cancel_completed_future s) = container s"
  "executor (cancel_completed_future s) = executor s"
  "exec_cmds (trace (cancel_completed_future s)) = exec_cmds (trace s)"
  "workers (trace (cancel_completed_future s)) = workers (trace s)"
  "container_stops (trace (cancel_completed_future s)) = container_stops (trace s)"
  "future_cancels (trace (cancel_completed_future s)) =
     future_cancels (trace s) @ (case completed_future s of None \<Rightarrow> [] | Some f \<Rightarrow> [f])"
  by (simp_all add: cancel_completed_future_def emit_fields obs_append split: option.splits)



text \<open>Events already in the trace do not influence what an operation does.\<close>

lemma start_shift:
  "start_docker_container d (s\<lparr>trace := pre @ trace s\<rparr>) =
     (fst (start_docker_container d s),
      (snd (start_docker_container d s))\<lparr>trace := pre @ trace (snd (start_docker_container d s))\<rparr>)"
  by (simp add: start_docker_container_def Let_def emit_def logger_def split: sum.splits)

lemma launch_node_shift:
  "launch_node ctx d n (s\<lparr>trace := pre @ trace s\<rparr>) =
     (fst (launch_node ctx d n s),
      (snd (launch_node ctx d n s))\<lparr>trace := pre @ trace (snd (launch_node ctx d n s))\<rparr>)"
  by (simp add: launch_node_def Let_def emit_def logger_def split: sum.splits option.splits)

lemma launch_loop_shift:
  "launch_loop ctx d ns (s\<lparr>trace := pre @ trace s\<rparr>) =
     (fst (launch_loop ctx d ns s),
      (snd (launch_loop ctx d ns s))\<lparr>trace := pre @ trace (snd (launch_loop ctx d ns s))\<rparr>)"
proof (induction ns arbitrary: s)
  case Nil
  then show ?case by simp
next
  case (Cons n ns)
  obtain o1 s1 where n: "launch_node ctx d n s = (o1, s1)"
    by (cases "launch_node ctx d n s")
  have sh: "launch_node ctx d n (s\<lparr>trace := pre @ trace s\<rparr>) = (o1, s1\<lparr>trace := pre @ trace s1\<rparr>)"
    using launch_node_shift[where ctx=ctx and d=d and n=n and s=s and pre=pre] n by simp
  show ?case
  proof (cases o1)
    case Returned
    with n sh Cons.IH[of s1] show ?thesis by simp
  next
    case (Raised e)
    with n sh show ?thesis by simp
  qed
qed

lemma load_nodes_shift:
  "load_nodes_in_docker ctx d (s\<lparr>trace := pre @ trace s\<rparr>) =
     (fst (load_nodes_in_docker ctx d s),
      (snd (load_nodes_in_docker ctx d s))\<lparr>trace := pre @ trace (snd (load_nodes_in_docker ctx d s))\<rparr>)"
  using launch_loop_shift[where ctx=ctx and d=d and ns="node_descriptions s" and s=s and pre=pre]
  by (simp add: load_nodes_in_docker_def no_container_error_def logger_def emit_def
      split: option.splits)

text \<open>The result of the pull is only read by the pull itself.\<close>

lemma start_pull_irrelevant:
  "start_docker_container (d\<lparr>images_pull := f\<rparr>) s = start_docker_container d s"
  by (simp add: start_docker_container_def)

lemma launch_node_pull_irrelevant:
  "launch_node ctx (d\<lparr>images_pull := f\<rparr>) n s = launch_node ctx d n s"
  by (simp add: launch_node_def Let_def cong: sum.case_cong option.case_cong)

lemma launch_loop_pull_irrelevant:
  "launch_loop ctx (d\<lparr>images_pull := f\<rparr>) ns s = launch_loop ctx d ns s"
  by (induction ns arbitrary: s)
    (simp_all add: launch_node_pull_irrelevant split: prod.splits outcome.splits)

lemma load_nodes_pull_irrelevant:
  "load_nodes_in_docker ctx (d\<lparr>images_pull := f\<rparr>) s = load_nodes_in_docker ctx d s"
  by (simp add: load_nodes_in_docker_def launch_loop_pull_irrelevant split: option.splits)

text \<open>What follows the pull: start the container and load the nodes.\<close>

lemma after_pull_started:
  assumes that: "images_pull d (repository (policy s)) (tag (policy s)) = Inr ()
      \<or> images_pull d (repository (policy s)) (tag (policy s)) = Inl ImageNotFound"
   and start: "containers_run d (image_name (policy s)) (container_name (policy s))
             (case run_args (policy s) of None \<Rightarrow> [] | Some a \<Rightarrow> a) = Inr c"
  shows "start_docker_nodes ctx d s =
     load_nodes_in_docker ctx d
       (snd (start_docker_container d
          (if images_pull d (repository (policy s)) (tag (policy s)) = Inl ImageNotFound
           then pull_not_found (snd (pull_docker_image d s)) else snd (pull_docker_image d s))))"
proof -
  obtain o1 s1 where p: "pull_docker_image d s = (o1, s1)"
    by (cases "pull_docker_image d s")
  have o1: "o1 = (case images_pull d (repository (policy s)) (tag (policy s)) of
        Inl e \<Rightarrow> Raised e | Inr u \<Rightarrow> Returned)"
    using pull_outcome[of d s] p by simp
  have s1: "policy s1 = policy s"
    using pull_fields(1)[of d s] p by simp
  let ?s2 = "if o1 = Raised ImageNotFound then pull_not_found s1 else s1"
  have pol2: "policy ?s2 = policy s"
    using s1 by (simp add: pull_not_found_fields)
  obtain o2 s3 where st: "start_docker_container d ?s2 = (o2, s3)"
    by (cases "start_docker_container d ?s2")
  have o2: "o2 = Returned"
    using start_outcome[of d ?s2] st start pol2 by simp
  show ?thesis
    using that p o1 st o2
    by (auto simp add: start_docker_nodes_def Let_def)
qed

subsection \<open>The startup sequence and the shutdown handler\<close>

lemma pull_state_irrelevant:
  "snd (pull_docker_image (d\<lparr>images_pull := f\<rparr>) s) = snd (pull_docker_image d s)"
  by (simp add: pull_docker_image_def Let_def split: sum.splits)

lemma load_nodes_frame:
  assumes "load_nodes_in_docker ctx d s = (out, s1)"
  shows "policy s1 = policy s \<and> node_descriptions s1 = node_descriptions s
    \<and> completed_future s1 = completed_future s \<and> started_task s1 = started_task s
    \<and> container s1 = container s \<and> executor s1 = executor s
    \<and> future_cancels (trace s1) = future_cancels (trace s)
    \<and> container_stops (trace s1) = container_stops (trace s)"
proof (cases "container s")
  case None
  with assms show ?thesis
    by (auto simp add: load_nodes_in_docker_def no_container_error_def logger_fields obs_append)
next
  case (Some c)
  with assms have "launch_loop ctx d (node_descriptions s) s = (out, s1)"
    by (simp add: load_nodes_in_docker_def)
  from launch_loop_frame[OF this] show ?thesis .
qed

lemmas run_defs = start_docker_nodes_def pull_docker_image_def start_docker_container_def
  load_nodes_in_docker_def launch_node_def containerized_cmd_def pull_not_found_def
  start_not_found_log_def cancel_completed_future_def no_container_error_def
  execute_def on_shutdown_def logger_def emit_def Let_def

lemma demo_started_obs:
  "fst (start_docker_nodes demo_context (demo_docker pulled (Inr (Container 7)))
         (execute demo_context demo_action)) = Returned
   \<and> exec_cmds (trace (snd (start_docker_nodes demo_context (demo_docker (Inr ()) (Inr (Container 7)))
         (execute demo_context demo_action)))) =
       [[ustr ''bash'', ustr ''-c'', ustr ''ros2'', ustr ''run'', ustr ''demo_pkg'', ustr ''talker'']]
   \<and> workers (trace (snd (start_docker_nodes demo_context (demo_docker (Inr ()) (Inr (Container 7)))
         (execute demo_context demo_action)))) = [[PBytes [0x68, 0x69, 0x0A]]]"
  if "pulled = Inr () \<or> pulled = Inl ImageNotFound"
  using that
  by (auto simp add: run_defs demo_defs shlex_demo)

lemma no_container_error_fields:
  "policy (no_container_error s) = policy s"
  "node_descriptions (no_container_error s) = node_descriptions s"
  "completed_future (no_container_error s) = completed_future s"
  "started_task (no_container_error s) = started_task s"
  "container (no_container_error s) = container s"
  "executor (no_container_error s) = executor s"
  "exec_cmds (trace (no_container_error s)) = exec_cmds (trace s)"
  "workers (trace (no_container_error s)) = workers (trace s)"
  "future_cancels (trace (no_container_error s)) = future_cancels (trace s)"
  "container_stops (trace (no_container_error s)) = container_stops (trace s)"
  by (simp_all add: no_container_error_def logger_fields obs_append)

lemma on_shutdown_future:
  "completed_future (on_shutdown s) = None"
  "future_cancels (trace (on_shutdown s)) =
     future_cancels (trace s) @ (case completed_future s of None \<Rightarrow> [] | Some f \<Rightarrow> [f])"
  by (simp_all add: on_shutdown_def Let_def emit_def obs_append split: option.splits)

lemma task_step_future:
  assumes "task_step ctx d (pc, s) = (pc', s')"
  shows "(completed_future s' = completed_future s
           \<and> future_cancels (trace s') = future_cancels (trace s))
       \<or> (completed_future s' = None
           \<and> future_cancels (trace s') =
               future_cancels (trace s) @
                 (case completed_future s of None \<Rightarrow> [] | Some f \<Rightarrow> [f]))"
proof (cases pc)
  case At_pull
  obtain o1 s1 where p: "pull_docker_image d s = (o1, s1)"
    by (cases "pull_docker_image d s")
  have "completed_future s1 = completed_future s"
    "future_cancels (trace s1) = future_cancels (trace s)"
    using pull_fields(3)[of d s] pull_obs(3)[of d s] p by simp_all
  with assms At_pull p show ?thesis
    by (auto simp add: pull_not_found_fields pull_not_found_obs split: if_splits)
next
  case At_start
  obtain o2 s3 where st: "start_docker_container d s = (o2, s3)"
    by (cases "start_docker_container d s")
  from start_frame[OF st] assms At_start st show ?thesis
    by (auto simp add: start_not_found_log_fields split: if_splits)
next
  case At_cancel
  with assms show ?thesis
    by (auto simp add: cancel_completed_future_fields)
next
  case At_load
  with assms show ?thesis
    by (auto simp add: no_container_error_fields split: option.splits)
next
  case (At_loop ns)
  show ?thesis
  proof (cases ns)
    case Nil
    with assms At_loop show ?thesis by simp
  next
    case (Cons n rest)
    obtain o1 s1 where l: "launch_node ctx d n s = (o1, s1)"
      by (cases "launch_node ctx d n s")
    from launch_node_frame[OF l] assms At_loop Cons l show ?thesis
      by (cases o1) auto
  qed
next
  case (Finished out)
  with assms show ?thesis by simp
qed

lemma step_future:
  assumes "step ctx d (pc, s) a = (pc', s')"
  shows "(completed_future s' = completed_future s
           \<and> future_cancels (trace s') = future_cancels (trace s))
       \<or> (completed_future s' = None
           \<and> future_cancels (trace s') =
               future_cancels (trace s) @
                 (case completed_future s of None \<Rightarrow> [] | Some f \<Rightarrow> [f]))"
proof (cases a)
  case Task_step
  with assms have "task_step ctx d (pc, s) = (pc', s')" by simp
  from task_step_future[OF this] show ?thesis .
next
  case Shutdown_event
  with assms have "s' = on_shutdown s" by simp
  then show ?thesis by (simp add: on_shutdown_future)
qed

lemma schedule_future:
  assumes "(completed_future s = Some f \<and> future_cancels (trace s) = c0)
         \<or> (completed_future s = None \<and> future_cancels (trace s) = c0 @ [f])"
  shows "(completed_future (snd (foldl (step ctx d) (pc, s) sched)) = Some f
           \<and> future_cancels (trace (snd (foldl (step ctx d) (pc, s) sched))) = c0)
       \<or> (completed_future (snd (foldl (step ctx d) (pc, s) sched)) = None
           \<and> future_cancels (trace (snd (foldl (step ctx d) (pc, s) sched))) = c0 @ [f])"
  using assms
proof (induction sched arbitrary: pc s)
  case Nil
  then show ?case by simp
next
  case (Cons a sched)
  obtain pc' s' where st: "step ctx d (pc, s) a = (pc', s')"
    by (cases "step ctx d (pc, s) a")
  from step_future[OF st] Cons.prems
  have "(completed_future s' = Some f \<and> future_cancels (trace s') = c0)
         \<or> (completed_future s' = None \<and> future_cancels (trace s') = c0 @ [f])"
    by auto
  from Cons.IH[OF this, of pc'] st show ?case by simp
qed

lemma on_shutdown_stops_container:
  assumes "completed_future s = Some f" "container s = Some c"
  shows "container (on_shutdown s) = None
    \<and> container_stops (trace (on_shutdown s)) = container_stops (trace s) @ [c]"
  using assms by (simp add: on_shutdown_def Let_def emit_def obs_append split: option.splits)

lemma on_shutdown_future_cleared:
  assumes "completed_future s = None"
  shows "container (on_shutdown s) = container s
    \<and> container_stops (trace (on_shutdown s)) = container_stops (trace s)"
  using assms by (simp add: on_shutdown_def Let_def emit_def obs_append split: option.splits)


subsection \<open>The steps of the task against the startup function\<close>

text \<open>Run without interruption, the steps of the task compute \<open>start_docker_nodes\<close>.\<close>

lemma finished_steps:
  "foldl (step ctx d) (Finished out, s) (replicate n Task_step) = (Finished out, s)"
  by (induction n) simp_all

lemma loop_steps:
  "length ns < n \<Longrightarrow>
   foldl (step ctx d) (At_loop ns, s) (replicate n Task_step) =
     (Finished (fst (launch_loop ctx d ns s)), snd (launch_loop ctx d ns s))"
proof (induction ns arbitrary: s n)
  case Nil
  then obtain m where "n = Suc m" by (cases n) auto
  then show ?case by (simp add: finished_steps)
next
  case (Cons a ns)
  then obtain m where n: "n = Suc m" and m: "length ns < m" by (cases n) auto
  obtain o1 s1 where l: "launch_node ctx d a s = (o1, s1)"
    by (cases "launch_node ctx d a s")
  show ?case
  proof (cases o1)
    case Returned
    with l n Cons.IH[OF m, of s1] show ?thesis by simp
  next
    case (Raised e)
    with l n show ?thesis by (simp add: finished_steps)
  qed
qed

lemma load_steps:
  "Suc (length (node_descriptions s)) < n \<Longrightarrow>
   foldl (step ctx d) (At_load, s) (replicate n Task_step) =
     (Finished (fst (load_nodes_in_docker ctx d s)), snd (load_nodes_in_docker ctx d s))"
proof -
  assume a: "Suc (length (node_descriptions s)) < n"
  then obtain m where n: "n = Suc m" and m: "length (node_descriptions s) < m"
    by (cases n) auto
  show ?thesis
  proof (cases "container s")
    case None
    with n show ?thesis
      by (simp add: load_nodes_in_docker_def finished_steps)
  next
    case (Some c)
    with n loop_steps[OF m, of ctx d s] show ?thesis
      by (simp add: load_nodes_in_docker_def)
  qed
qed

lemma task_steps_refine:
  assumes "length (node_descriptions s) + 4 \<le> n"
  shows "foldl (step ctx d) (At_pull, s) (replicate n Task_step) =
     (Finished (fst (start_docker_nodes ctx d s)), snd (start_docker_nodes ctx d s))"
proof -
  from assms obtain m where n: "n = Suc (Suc m)"
    and m: "Suc (length (node_descriptions s)) < m"
    by (cases n; cases "n - 1") auto
  obtain o1 s1 where p: "pull_docker_image d s = (o1, s1)"
    by (cases "pull_docker_image d s")
  have nd1: "node_descriptions s1 = node_descriptions s"
    using pull_fields(2)[of d s] p by simp
  show ?thesis
  proof (cases "o1 \<noteq> Returned \<and> o1 \<noteq> Raised ImageNotFound")
    case True
    with p n show ?thesis
      by (simp add: start_docker_nodes_def finished_steps)
  next
    case False
    let ?s2 = "if o1 = Raised ImageNotFound then pull_not_found s1 else s1"
    have nd2: "node_descriptions ?s2 = node_descriptions s"
      using nd1 by (simp add: pull_not_found_fields)
    obtain o2 s3 where st: "start_docker_container d ?s2 = (o2, s3)"
      by (cases "start_docker_container d ?s2")
    have nd3: "node_descriptions s3 = node_descriptions s"
      using start_frame[OF st] nd2 by simp
    from m obtain k where mk: "m = Suc k" by (cases m) auto
    have first: "foldl (step ctx d) (At_pull, s) (replicate n Task_step) =
       foldl (step ctx d) (task_step ctx d (At_start, ?s2)) (replicate m Task_step)"
      using False p n by (auto simp add: Let_def)
    have rhs: "start_docker_nodes ctx d s =
       (if o2 = Raised ImageNotFound
        then (Returned, cancel_completed_future (start_not_found_log s3))
        else if o2 \<noteq> Returned then (o2, s3)
        else load_nodes_in_docker ctx d s3)"
      using False p st by (auto simp add: start_docker_nodes_def Let_def)
    show ?thesis
    proof (cases "o2 = Raised ImageNotFound")
      case True
      with first st rhs mk show ?thesis
        by (simp add: finished_steps)
    next
      case nf: False
      show ?thesis
      proof (cases "o2 = Returned")
        case True
        have "Suc (length (node_descriptions s3)) < m" using m nd3 by simp
        from load_steps[OF this, of ctx d] first st rhs True show ?thesis
          by simp
      next
        case False2: False
        with first st rhs nf show ?thesis
          by (simp add: finished_steps)
      qed
    qed
  qed
qed

lemma lifecycle_uninterrupted:
  assumes "length (node_descriptions s) + 4 \<le> n"
  shows "lifecycle ctx d (replicate n Task_step) s =
     (Finished (fst (start_docker_nodes ctx d (execute ctx s))),
      snd (start_docker_nodes ctx d (execute ctx s)))"
proof -
  have "node_descriptions (execute ctx s) = node_descriptions s"
    by (simp add: execute_def emit_def)
  with assms task_steps_refine[of "execute ctx s" n ctx d] show ?thesis
    by (simp add: lifecycle_def)
qed

subsection \<open>The log pump\<close>

lemma handle_logs_append:
  "handle_logs (xs @ ys) =
     (case handle_logs xs of
        (Returned, recs) \<Rightarrow> (fst (handle_logs ys), recs @ snd (handle_logs ys))
      | (Raised e, recs) \<Rightarrow> (Raised e, recs))"
  by (induction xs) (auto split: prod.splits outcome.splits)

lemma forward_inner_decoded:
  "map decode_strip ls = map Inr ts \<Longrightarrow>
   forward_inner ls = (Returned, map (\<lambda>t. Log INFO (Text t)) ts)"
  by (induction ls arbitrary: ts) (auto split: sum.splits prod.splits)

lemma decode_strip_errors:
  "decode_strip x = Inl e \<Longrightarrow> e = UnicodeDecodeError \<or> e = AttributeError"
  by (cases x) (auto simp add: bytes_decode_def split: sum.splits option.splits)

lemma strip_trimmed:
  "strip t = [] \<or> (\<not> isspace (hd (strip t)) \<and> \<not> isspace (last (strip t)))"
proof (cases "strip t = []")
  case True
  then show ?thesis by simp
next
  case False
  let ?a = "dropWhile isspace t"
  let ?b = "dropWhile isspace (rev ?a)"
  have b: "?b \<noteq> []" using False by (simp add: strip_def)
  have l: "\<not> isspace (last (strip t))"
    using b hd_dropWhile[of isspace "rev ?a"] by (simp add: strip_def last_rev)
  have a: "?a \<noteq> []" using b by (metis dropWhile.simps(1) rev.simps(1))
  have ha: "\<not> isspace (hd ?a)" using a hd_dropWhile by blast
  obtain k where k: "?b = drop k (rev ?a)"
    by (metis dropWhile_eq_drop)
  have "rev ?b = take (length ?a - k) ?a"
    using k by (simp add: rev_drop)
  moreover have "length ?a - k \<noteq> 0" using b calculation by auto
  ultimately have "hd (rev ?b) = hd ?a"
    by (metis hd_take neq0_conv)
  with ha l show ?thesis by (simp add: strip_def)
qed

lemma strip_infix:
  "\<exists>a b. t = a @ strip t @ b \<and> list_all isspace a \<and> list_all isspace b"
proof -
  let ?a = "takeWhile isspace t"
  let ?m = "dropWhile isspace t"
  let ?b = "rev (takeWhile isspace (rev ?m))"
  have "rev ?m = takeWhile isspace (rev ?m) @ dropWhile isspace (rev ?m)" by simp
  then have "?m = strip t @ ?b"
    by (metis rev_append rev_rev_ident strip_def)
  then have "t = ?a @ strip t @ ?b"
    by (metis takeWhile_dropWhile_id)
  moreover have "list_all isspace ?a"
    by (simp add: list_all_iff) (meson set_takeWhileD)
  moreover have "list_all isspace ?b"
    by (simp add: list_all_iff) (meson set_takeWhileD)
  ultimately show ?thesis by blast
qed

lemmas pump_defs = handle_chunk_def bytes_decode_def cont_def cbits_def strip_def isspace_def

text \<open>
  An error on a chunk that is not a generator is caught: one record that names the type
  of the chunk, and the pump goes on with the rest of the stream.
\<close>

lemma plain_chunk_error:
  assumes "truthy log" "type_of log \<noteq> T_generator" "decode_strip log = Inl e"
  shows "handle_logs (log # rest) =
     (fst (handle_logs rest),
      Log EXCEPTION (Format ''Unable to print log of type {}'' [ArgType (type_of log)])
        # snd (handle_logs rest))"
  using assms decode_strip_errors[OF assms(3)]
  by (cases log) (auto simp add: handle_chunk_def split: prod.splits)

text \<open>
  The decoder accepts exactly the encodings of sequences of scalar values, and returns the
  sequence.
\<close>

lemma decode2:
  "0xC2 \<le> b0 \<Longrightarrow> b0 \<le> 0xDF \<Longrightarrow> cont b1 \<Longrightarrow>
   utf8_decode (b0 # b1 # bs) =
     map_option ((#) ((b0 - 0xC0) * 64 + cbits b1)) (utf8_decode bs)"
  by simp

lemma decode3:
  "0xE0 \<le> b0 \<Longrightarrow> b0 \<le> 0xEF \<Longrightarrow> (if b0 = 0xE0 then 0xA0 else 0x80) \<le> b1 \<Longrightarrow>
   b1 \<le> (if b0 = 0xED then 0x9F else 0xBF) \<Longrightarrow> cont b2 \<Longrightarrow>
   utf8_decode (b0 # b1 # b2 # bs) =
     map_option ((#) ((b0 - 0xE0) * 4096 + cbits b1 * 64 + cbits b2)) (utf8_decode bs)"
  by simp

lemma decode4:
  "0xF0 \<le> b0 \<Longrightarrow> b0 \<le> 0xF4 \<Longrightarrow> (if b0 = 0xF0 then 0x90 else 0x80) \<le> b1 \<Longrightarrow>
   b1 \<le> (if b0 = 0xF4 then 0x8F else 0xBF) \<Longrightarrow> cont b2 \<Longrightarrow> cont b3 \<Longrightarrow>
   utf8_decode (b0 # b1 # b2 # b3 # bs) =
     map_option ((#) ((b0 - 0xF0) * 262144 + cbits b1 * 4096 + cbits b2 * 64 + cbits b3))
       (utf8_decode bs)"
  by simp

lemma radix64:
  fixes cp :: nat
  shows "cp = cp div 4096 * 4096 + cp div 64 mod 64 * 64 + cp mod 64"
    and "cp = cp div 262144 * 262144 + cp div 4096 mod 64 * 4096 + cp div 64 mod 64 * 64
              + cp mod 64"
proof -
  have a: "cp div 4096 = cp div 64 div 64"
    using div_mult2_eq[of cp 64 64] by simp
  have b: "cp div 262144 = cp div 4096 div 64"
    using div_mult2_eq[of cp 4096 64] by simp
  have 1: "cp = cp div 64 * 64 + cp mod 64" by simp
  have 2: "cp div 64 = cp div 64 div 64 * 64 + cp div 64 mod 64" by simp
  have 3: "cp div 4096 = cp div 4096 div 64 * 64 + cp div 4096 mod 64" by simp
  show c: "cp = cp div 4096 * 4096 + cp div 64 mod 64 * 64 + cp mod 64"
    using 1 2 unfolding a by linarith
  show "cp = cp div 262144 * 262144 + cp div 4096 mod 64 * 4096 + cp div 64 mod 64 * 64
              + cp mod 64"
    using c 3 unfolding b by linarith
qed

lemma mod64: "(n::nat) mod 64 < 64"
  by simp

lemma decode_encode_cp:
  assumes "valid_cp cp"
  shows "utf8_decode (utf8_encode_cp cp @ bs) = map_option ((#) cp) (utf8_decode bs)"
proof -
  from assms have lt: "cp < 0x110000" by (simp add: valid_cp_def)
  consider "cp < 0x80" | "0x80 \<le> cp \<and> cp < 0x800" | "0x800 \<le> cp \<and> cp < 0x10000"
    | "0x10000 \<le> cp \<and> cp < 0x110000"
    using lt by linarith
  then show ?thesis
  proof cases
    case 1
    then show ?thesis by (simp add: utf8_encode_cp_def)
  next
    case 2
    define b0 where "b0 = 0xC0 + cp div 64"
    define b1 where "b1 = 0x80 + cp mod 64"
    have e: "utf8_encode_cp cp = [b0, b1]"
      using 2 by (simp add: utf8_encode_cp_def b0_def b1_def)
    have r: "cp = cp div 64 * 64 + cp mod 64" by simp
    have a: "0xC2 \<le> b0" "b0 \<le> 0xDF" "cont b1"
      using 2 r mod64[of cp] unfolding b0_def b1_def cont_def by linarith+
    have v: "(b0 - 0xC0) * 64 + cbits b1 = cp"
      unfolding b0_def b1_def cbits_def by simp
    show ?thesis using decode2[OF a, of bs] by (simp add: e v)
  next
    case 3
    define b0 where "b0 = 0xE0 + cp div 4096"
    define b1 where "b1 = 0x80 + cp div 64 mod 64"
    define b2 where "b2 = 0x80 + cp mod 64"
    have e: "utf8_encode_cp cp = [b0, b1, b2]"
      using 3 by (simp add: utf8_encode_cp_def b0_def b1_def b2_def)
    note r = radix64(1)[of cp]
    have a1: "0xE0 \<le> b0" "b0 \<le> 0xEF" "cont b2"
      using 3 r mod64[of cp] mod64[of "cp div 64"] unfolding b0_def b2_def cont_def
      by linarith+
    have a2: "(if b0 = 0xE0 then 0xA0 else 0x80) \<le> b1"
      using 3 r mod64[of cp] mod64[of "cp div 64"] unfolding b0_def b1_def
      by (cases "cp div 4096 = 0") simp_all
    have a3: "b1 \<le> (if b0 = 0xED then 0x9F else 0xBF)"
    proof (cases "cp div 4096 = 13")
      case True
      with assms r mod64[of cp] have "cp div 64 mod 64 \<le> 31"
        unfolding valid_cp_def by linarith
      with True show ?thesis unfolding b0_def b1_def by simp
    next
      case False
      with mod64[of "cp div 64"] show ?thesis unfolding b0_def b1_def by simp
    qed
    have v: "(b0 - 0xE0) * 4096 + cbits b1 * 64 + cbits b2 = cp"
      using r unfolding b0_def b1_def b2_def cbits_def by simp
    show ?thesis using decode3[OF a1(1,2) a2 a3 a1(3), of bs] by (simp add: e v)
  next
    case 4
    define b0 where "b0 = 0xF0 + cp div 262144"
    define b1 where "b1 = 0x80 + cp div 4096 mod 64"
    define b2 where "b2 = 0x80 + cp div 64 mod 64"
    define b3 where "b3 = 0x80 + cp mod 64"
    have e: "utf8_encode_cp cp = [b0, b1, b2, b3]"
      using 4 by (simp add: utf8_encode_cp_def b0_def b1_def b2_def b3_def)
    note r = radix64(2)[of cp]
    note m = mod64[of cp] mod64[of "cp div 64"] mod64[of "cp div 4096"]
    have a1: "0xF0 \<le> b0" "b0 \<le> 0xF4" "cont b2" "cont b3"
      using 4 r m unfolding b0_def b2_def b3_def cont_def by linarith+
    have a2: "(if b0 = 0xF0 then 0x90 else 0x80) \<le> b1"
    proof (cases "cp div 262144 = 0")
      case True
      with 4 r m have "16 \<le> cp div 4096 mod 64" by linarith
      with True show ?thesis unfolding b0_def b1_def by simp
    next
      case False
      then show ?thesis unfolding b0_def b1_def by simp
    qed
    have a3: "b1 \<le> (if b0 = 0xF4 then 0x8F else 0xBF)"
    proof (cases "cp div 262144 = 4")
      case True
      with 4 r m have "cp div 4096 mod 64 \<le> 15" by linarith
      with True show ?thesis unfolding b0_def b1_def by simp
    next
      case False
      with m show ?thesis unfolding b0_def b1_def by simp
    qed
    have v: "(b0 - 0xF0) * 262144 + cbits b1 * 4096 + cbits b2 * 64 + cbits b3 = cp"
      using r unfolding b0_def b1_def b2_def b3_def cbits_def by simp
    show ?thesis using decode4[OF a1(1,2) a2 a3 a1(3,4), of bs] by (simp add: e v)
  qed
qed

lemma decode_encode:
  "list_all valid_cp t \<Longrightarrow> utf8_decode (utf8_encode t) = Some t"
  by (induction t) (simp_all add: utf8_encode_def decode_encode_cp)

lemma divmod64:
  fixes a r :: nat
  assumes "r < 64"
  shows "(a * 64 + r) div 64 = a" "(a * 64 + r) mod 64 = r"
  using assms by simp_all

lemma encode1: "b0 \<le> 0x7F \<Longrightarrow> utf8_encode_cp b0 = [b0] \<and> valid_cp b0"
  by (simp add: utf8_encode_cp_def valid_cp_def)

lemma encode2:
  assumes "0xC2 \<le> b0" "b0 \<le> 0xDF" "cont b1"
  shows "utf8_encode_cp ((b0 - 0xC0) * 64 + cbits b1) = [b0, b1]
         \<and> valid_cp ((b0 - 0xC0) * 64 + cbits b1)"
proof -
  define a where "a = b0 - 0xC0"
  define r where "r = b1 - 0x80"
  have ar: "2 \<le> a" "a \<le> 31" "r < 64" "b0 = 0xC0 + a" "b1 = 0x80 + r"
    using assms unfolding a_def r_def cont_def by linarith+
  have rng: "0x80 \<le> a * 64 + r" "a * 64 + r < 0x800"
    using ar by linarith+
  show ?thesis
    using rng divmod64[OF ar(3), of a] ar(4,5)
    by (simp add: utf8_encode_cp_def valid_cp_def cbits_def a_def[symmetric] r_def[symmetric])
qed

lemma encode3:
  assumes "0xE0 \<le> b0" "b0 \<le> 0xEF" "(if b0 = 0xE0 then 0xA0 else 0x80) \<le> b1"
    "b1 \<le> (if b0 = 0xED then 0x9F else 0xBF)" "cont b2"
  shows "utf8_encode_cp ((b0 - 0xE0) * 4096 + cbits b1 * 64 + cbits b2) = [b0, b1, b2]
         \<and> valid_cp ((b0 - 0xE0) * 4096 + cbits b1 * 64 + cbits b2)"
proof -
  define a where "a = b0 - 0xE0"
  define b where "b = b1 - 0x80"
  define c where "c = b2 - 0x80"
  have b1r: "0x80 \<le> b1" "b1 \<le> 0xBF"
    using assms(3,4) by (auto split: if_splits)
  have ar: "a \<le> 15" "b < 64" "c < 64" "b0 = 0xE0 + a" "b1 = 0x80 + b" "b2 = 0x80 + c"
    using assms(1,2,5) b1r unfolding a_def b_def c_def cont_def by linarith+
  have lo: "a = 0 \<Longrightarrow> 32 \<le> b"
    using assms(3) ar(4,5) by simp
  have sur: "a = 13 \<Longrightarrow> b \<le> 31"
    using assms(4) ar(4,5) by simp
  let ?cp = "a * 4096 + b * 64 + c"
  have q: "?cp = (a * 64 + b) * 64 + c" by simp
  have d1: "?cp div 64 = a * 64 + b" "?cp mod 64 = c"
    unfolding q using divmod64[OF ar(3), of "a * 64 + b"] by simp_all
  have d2: "?cp div 4096 = a"
    using div_mult2_eq[of ?cp 64 64] d1(1) divmod64(1)[OF ar(2), of a] by simp
  have d3: "?cp div 64 mod 64 = b"
    using d1(1) divmod64(2)[OF ar(2), of a] by simp
  have rng: "0x800 \<le> ?cp" "?cp < 0x10000"
    using ar(1,2,3) lo by (cases "a = 0"; linarith)+
  have nsur: "\<not> (0xD800 \<le> ?cp \<and> ?cp \<le> 0xDFFF)"
    using ar(1,2,3) sur by (cases "a = 13"; linarith)
  have "utf8_encode_cp ?cp = [0xE0 + a, 0x80 + b, 0x80 + c]"
    using rng ar(2) by (simp add: utf8_encode_cp_def d1 d2)
  moreover have "valid_cp ?cp"
    using rng nsur unfolding valid_cp_def by linarith
  ultimately show ?thesis
    using ar(4,5,6)
    by (simp add: cbits_def a_def[symmetric] b_def[symmetric] c_def[symmetric])
qed

lemma encode4:
  assumes "0xF0 \<le> b0" "b0 \<le> 0xF4" "(if b0 = 0xF0 then 0x90 else 0x80) \<le> b1"
    "b1 \<le> (if b0 = 0xF4 then 0x8F else 0xBF)" "cont b2" "cont b3"
  shows "utf8_encode_cp ((b0 - 0xF0) * 262144 + cbits b1 * 4096 + cbits b2 * 64 + cbits b3) =
           [b0, b1, b2, b3]
         \<and> valid_cp ((b0 - 0xF0) * 262144 + cbits b1 * 4096 + cbits b2 * 64 + cbits b3)"
proof -
  define a where "a = b0 - 0xF0"
  define b where "b = b1 - 0x80"
  define c where "c = b2 - 0x80"
  define e where "e = b3 - 0x80"
  have b1r: "0x80 \<le> b1" "b1 \<le> 0xBF"
    using assms(3,4) by (auto split: if_splits)
  have ar: "a \<le> 4" "b < 64" "c < 64" "e < 64"
    "b0 = 0xF0 + a" "b1 = 0x80 + b" "b2 = 0x80 + c" "b3 = 0x80 + e"
    using assms(1,2,5,6) b1r unfolding a_def b_def c_def e_def cont_def by linarith+
  have lo: "a = 0 \<Longrightarrow> 16 \<le> b"
    using assms(3) ar(5,6) by simp
  have hi: "a = 4 \<Longrightarrow> b \<le> 15"
    using assms(4) ar(5,6) by simp
  let ?cp = "a * 262144 + b * 4096 + c * 64 + e"
  have q: "?cp = ((a * 64 + b) * 64 + c) * 64 + e" by simp
  have d1: "?cp div 64 = (a * 64 + b) * 64 + c" "?cp mod 64 = e"
    unfolding q using divmod64[OF ar(4), of "(a * 64 + b) * 64 + c"] by simp_all
  have d2: "?cp div 4096 = a * 64 + b"
    using div_mult2_eq[of ?cp 64 64] d1(1) divmod64(1)[OF ar(3), of "a * 64 + b"] by simp
  have d3: "?cp div 262144 = a"
    using div_mult2_eq[of ?cp 4096 64] d2 divmod64(1)[OF ar(2), of a] by simp
  have rng: "0x10000 \<le> ?cp" "?cp < 0x110000"
    using ar(1,2,3,4) lo hi by (cases "a = 0"; cases "a = 4"; linarith)+
  have c2: "?cp div 4096 mod 64 = b"
    unfolding d2 by (rule divmod64(2)[OF ar(2)])
  have c3: "?cp div 64 mod 64 = c"
    unfolding d1(1) by (rule divmod64(2)[OF ar(3)])
  have "utf8_encode_cp ?cp = [0xF0 + a, 0x80 + b, 0x80 + c, 0x80 + e]"
    unfolding utf8_encode_cp_def d3 c2 c3 d1(2) using rng by simp
  moreover have "valid_cp ?cp"
    using rng unfolding valid_cp_def by linarith
  ultimately show ?thesis
    using ar(5,6,7,8)
    by (simp add: cbits_def a_def[symmetric] b_def[symmetric] c_def[symmetric]
        e_def[symmetric])
qed

lemma encode_decode:
  "utf8_decode bs = Some t \<Longrightarrow> list_all valid_cp t \<and> utf8_encode t = bs"
proof (induction "length bs" arbitrary: bs t rule: less_induct)
  case less
  show ?case
  proof (cases bs)
    case Nil
    with less.prems show ?thesis by (simp add: utf8_encode_def)
  next
    case (Cons b0 r0)
    note bs = Cons
    consider (one) "b0 \<le> 0x7F" | (two) "0xC2 \<le> b0 \<and> b0 \<le> 0xDF"
      | (three) "0xE0 \<le> b0 \<and> b0 \<le> 0xEF" | (four) "0xF0 \<le> b0 \<and> b0 \<le> 0xF4"
      | (bad) "\<not> b0 \<le> 0x7F \<and> \<not> (0xC2 \<le> b0 \<and> b0 \<le> 0xDF)
               \<and> \<not> (0xE0 \<le> b0 \<and> b0 \<le> 0xEF) \<and> \<not> (0xF0 \<le> b0 \<and> b0 \<le> 0xF4)"
      by blast
    then show ?thesis
    proof cases
      case one
      with less.prems bs obtain t' where t': "utf8_decode r0 = Some t'" "t = b0 # t'"
        by auto
      from less.hyps[of r0 t'] t' bs have "list_all valid_cp t' \<and> utf8_encode t' = r0"
        by simp
      with encode1[OF one] t' bs show ?thesis by (simp add: utf8_encode_def)
    next
      case two
      with less.prems bs obtain b1 r t' where
        r: "r0 = b1 # r" "cont b1" "utf8_decode r = Some t'"
           "t = ((b0 - 0xC0) * 64 + cbits b1) # t'"
        by (auto split: list.splits if_splits)
      from less.hyps[of r t'] r bs have "list_all valid_cp t' \<and> utf8_encode t' = r"
        by simp
      with encode2[of b0 b1] two r bs show ?thesis by (simp add: utf8_encode_def)
    next
      case three
      with less.prems bs obtain b1 b2 r t' where
        r: "r0 = b1 # b2 # r" "(if b0 = 0xE0 then 0xA0 else 0x80) \<le> b1"
           "b1 \<le> (if b0 = 0xED then 0x9F else 0xBF)" "cont b2" "utf8_decode r = Some t'"
           "t = ((b0 - 0xE0) * 4096 + cbits b1 * 64 + cbits b2) # t'"
        by (auto split: list.splits if_splits)
      from less.hyps[of r t'] r bs have "list_all valid_cp t' \<and> utf8_encode t' = r"
        by simp
      with encode3[of b0 b1 b2] three r bs show ?thesis by (simp add: utf8_encode_def)
    next
      case four
      with less.prems bs obtain b1 b2 b3 r t' where
        r: "r0 = b1 # b2 # b3 # r" "(if b0 = 0xF0 then 0x90 else 0x80) \<le> b1"
           "b1 \<le> (if b0 = 0xF4 then 0x8F else 0xBF)" "cont b2" "cont b3"
           "utf8_decode r = Some t'"
           "t = ((b0 - 0xF0) * 262144 + cbits b1 * 4096 + cbits b2 * 64 + cbits b3) # t'"
        by (auto split: list.splits if_splits)
      from less.hyps[of r t'] r bs have "list_all valid_cp t' \<and> utf8_encode t' = r"
        by simp
      with encode4[of b0 b1 b2 b3] four r bs show ?thesis by (simp add: utf8_encode_def)
    next
      case bad
      with less.prems bs show ?thesis by simp
    qed
  qed
qed

lemma utf8_decode_iff:
  "utf8_decode bs = Some t \<longleftrightarrow> list_all valid_cp t \<and> utf8_encode t = bs"
  using encode_decode decode_encode by blast

lemma bytes_decode_iff:
  "bytes_decode bs = Inr u \<longleftrightarrow> list_all valid_cp u \<and> utf8_encode u = map unat bs"
  using utf8_decode_iff[of "map unat bs" u]
  by (auto simp add: bytes_decode_def split: option.splits)

lemma decode_strip_iff:
  "decode_strip x = Inr t \<longleftrightarrow>
     (\<exists>bs u. x = PBytes bs \<and> list_all valid_cp u \<and> utf8_encode u = map unat bs
              \<and> t = strip u)"
proof (cases x)
  case (PBytes bs)
  show ?thesis
  proof
    assume "decode_strip x = Inr t"
    with PBytes obtain u where "bytes_decode bs = Inr u" "t = strip u"
      by (auto split: sum.splits)
    with PBytes bytes_decode_iff[of bs u] show
      "\<exists>bs u. x = PBytes bs \<and> list_all valid_cp u \<and> utf8_encode u = map unat bs \<and> t = strip u"
      by blast
  next
    assume "\<exists>bs u. x = PBytes bs \<and> list_all valid_cp u \<and> utf8_encode u = map unat bs
              \<and> t = strip u"
    then obtain u where "list_all valid_cp u" "utf8_encode u = map unat bs" "t = strip u"
      using PBytes by auto
    with bytes_decode_iff[of bs u] PBytes show "decode_strip x = Inr t" by simp
  qed
qed simp_all

section \<open>The claims\<close>



text \<open>
  C2. The test of the container stands inside the branch for a future that is still set,
  so with the future cleared and a container present the handler stops nothing and keeps
  the reference, where the handler's documentation announces that it stops the container.
  Such a state is reached when a shutdown notification is handled between the pull and the
  start of the container: the handler clears the future, the task then starts the
  container, and the next notification leaves it running.
\<close>

theorem shutdown_leaves_container_running:
  "container (on_shutdown (demo_action\<lparr>container := Some (Container 7)\<rparr>)) = Some (Container 7)
   \<and> container_stops (trace (on_shutdown (demo_action\<lparr>container := Some (Container 7)\<rparr>))) = []
   \<and> completed_future (snd (lifecycle demo_context (demo_docker (Inr ()) (Inr (Container 7)))
        [Task_step, Shutdown_event, Task_step, Task_step, Task_step, Shutdown_event]
        demo_action)) = None
   \<and> container (snd (lifecycle demo_context (demo_docker (Inr ()) (Inr (Container 7)))
        [Task_step, Shutdown_event, Task_step, Task_step, Task_step, Shutdown_event]
        demo_action)) = Some (Container 7)
   \<and> container_stops (trace (snd (lifecycle demo_context (demo_docker (Inr ()) (Inr (Container 7)))
        [Task_step, Shutdown_event, Task_step, Task_step, Task_step, Shutdown_event]
        demo_action))) = []"
  by (simp add: lifecycle_def run_defs demo_defs shlex_demo)

text \<open>
  C3. The inner loop over a nested generator has no handler: a chunk there that does not
  decode ends the pump with the exception, no record is written and the rest of the stream
  is not read. The same bytes as a chunk of their own are reported with one record and the
  pump goes on.
\<close>

theorem nested_decode_error_ends_pump:
  "handle_logs [PGen [PBytes [0xFF]], PBytes [0x6F, 0x6B]] = (Raised UnicodeDecodeError, [])
   \<and> handle_logs [PBytes [0xFF], PBytes [0x6F, 0x6B]] =
       (Returned, [Log EXCEPTION (Format ''Unable to print log of type {}'' [ArgType T_bytes]),
                   Log INFO (Text (ustr ''ok''))])"
  by (simp add: pump_defs ustr_def)




text \<open>
  C5. If the pull raises \<^verbatim>\<open>ImageNotFound\<close> and the start succeeds, the run differs from
  the run with a successful pull in nothing but the warning and the debug record written
  after the pull: same outcome, same final state, same commands and workers; the future is
  neither cleared nor cancelled.
\<close>

theorem pull_not_found_is_swallowed:
  assumes pull: "images_pull d (repository (policy s)) (tag (policy s)) = Inl ImageNotFound"
    and start: "containers_run d (image_name (policy s)) (container_name (policy s))
             (case run_args (policy s) of None \<Rightarrow> [] | Some a \<Rightarrow> a) = Inr c"
    and run: "start_docker_nodes ctx d s = (out, s')"
    and run_ok: "start_docker_nodes ctx (d\<lparr>images_pull := \<lambda>r t. Inr ()\<rparr>) s = (out_ok, s_ok)"
  shows \<open>out = out_ok
    \<and> s'\<lparr>trace := []\<rparr> = s_ok\<lparr>trace := []\<rparr>
    \<and> (\<exists>rest.
          trace s_ok = trace s @
            [Logged (Log INFO (Format ''Pulling image {}'' [ArgStr (image_name (policy s))])),
             ImagesPull (repository (policy s)) (tag (policy s))] @ rest
        \<and> trace s' = trace s @
            [Logged (Log INFO (Format ''Pulling image {}'' [ArgStr (image_name (policy s))])),
             ImagesPull (repository (policy s)) (tag (policy s)),
             Logged (Log WARN (Format ''Image "{}" could not be pulled but may be found locally.''
                                 [ArgStr (image_name (policy s))])),
             Logged (Log DEBUG (ExcObj ImageNotFound))] @ rest)
    \<and> exec_cmds (trace s') = exec_cmds (trace s_ok)
    \<and> workers (trace s') = workers (trace s_ok)
    \<and> completed_future s' = completed_future s
    \<and> future_cancels (trace s') = future_cancels (trace s)\<close>
proof -
  let ?dk = "d\<lparr>images_pull := \<lambda>r t. Inr ()\<rparr>"
  let ?p = "snd (pull_docker_image d s)"
  let ?T = "trace s @
            [Logged (Log INFO (Format ''Pulling image {}'' [ArgStr (image_name (policy s))])),
             ImagesPull (repository (policy s)) (tag (policy s))]"
  let ?W = \<open>[Logged (Log WARN (Format ''Image "{}" could not be pulled but may be found locally.''
                                 [ArgStr (image_name (policy s))])),
             Logged (Log DEBUG (ExcObj ImageNotFound))]\<close>
  let ?b = "?p\<lparr>trace := []\<rparr>"
  let ?rest = "\<lambda>x. load_nodes_in_docker ctx d (snd (start_docker_container d x))"
  have tp: "trace ?p = ?T" and polp: "policy ?p = policy s"
    by (simp_all add: pull_fields)
  have p_shift: "?p = ?b\<lparr>trace := ?T @ trace ?b\<rparr>"
    using tp by simp
  have f_shift: "pull_not_found ?p = ?b\<lparr>trace := (?T @ ?W) @ trace ?b\<rparr>"
    using tp polp by (simp add: pull_not_found_def logger_def emit_def)
  have rest_shift: "?rest (x\<lparr>trace := pre @ trace x\<rparr>) =
        (fst (?rest x), (snd (?rest x))\<lparr>trace := pre @ trace (snd (?rest x))\<rparr>)" for x pre
    by (simp add: start_shift load_nodes_shift)
  have fail: "start_docker_nodes ctx d s = ?rest (pull_not_found ?p)"
    using after_pull_started[OF disjI2[OF pull] start, of ctx] pull by simp
  have ok: "start_docker_nodes ctx ?dk s = ?rest ?p"
    using after_pull_started[of ?dk s c ctx] start
    by (simp add: pull_state_irrelevant start_pull_irrelevant load_nodes_pull_irrelevant)
  have r1: "(out, s') = (fst (?rest ?b), (snd (?rest ?b))\<lparr>trace := (?T @ ?W) @ trace (snd (?rest ?b))\<rparr>)"
    using run fail rest_shift[of "?T @ ?W" ?b] f_shift by simp
  have r2: "(out_ok, s_ok) = (fst (?rest ?b), (snd (?rest ?b))\<lparr>trace := ?T @ trace (snd (?rest ?b))\<rparr>)"
    using run_ok ok rest_shift[of ?T ?b] p_shift by simp
  have nc: "completed_future s' = completed_future s
    \<and> future_cancels (trace s') = future_cancels (trace s)"
  proof -
    let ?q = "pull_not_found ?p"
    have q: "completed_future ?q = completed_future s"
      "future_cancels (trace ?q) = future_cancels (trace s)"
      by (simp_all add: pull_not_found_fields pull_not_found_obs pull_fields(1-6) pull_obs)
    obtain o2 s2 where st: "start_docker_container d ?q = (o2, s2)"
      by (cases "start_docker_container d ?q")
    have ld: "load_nodes_in_docker ctx d s2 = (out, s')"
      using run fail st by simp
    from start_frame[OF st] load_nodes_frame[OF ld] q show ?thesis by simp
  qed
  from r1 r2 have "out = out_ok" by simp
  moreover from r1 r2 have "s'\<lparr>trace := []\<rparr> = s_ok\<lparr>trace := []\<rparr>" by simp
  moreover from r1 r2 have "trace s_ok = ?T @ trace (snd (?rest ?b))
     \<and> trace s' = (?T @ ?W) @ trace (snd (?rest ?b))" by simp
  moreover from r1 r2 have "exec_cmds (trace s') = exec_cmds (trace s_ok)
     \<and> workers (trace s') = workers (trace s_ok)" by (simp add: obs_append)
  ultimately show ?thesis using nc by auto
qed

theorem pull_not_found_is_swallowed_witness:
  \<open>logged WARN (trace (snd (start_docker_nodes demo_context
        (demo_docker (Inl ImageNotFound) (Inr (Container 7)))
        (execute demo_context demo_action)))) =
     [Format ''Image "{}" could not be pulled but may be found locally.''
        [ArgStr (ustr ''demo_repo:latest'')]]
   \<and> exec_cmds (trace (snd (start_docker_nodes demo_context
        (demo_docker (Inl ImageNotFound) (Inr (Container 7)))
        (execute demo_context demo_action)))) =
     [[ustr ''bash'', ustr ''-c'', ustr ''ros2'', ustr ''run'', ustr ''demo_pkg'', ustr ''talker'']]
   \<and> completed_future (snd (start_docker_nodes demo_context
        (demo_docker (Inl ImageNotFound) (Inr (Container 7)))
        (execute demo_context demo_action))) = Some (Future 0)
   \<and> future_cancels (trace (snd (start_docker_nodes demo_context
        (demo_docker (Inl ImageNotFound) (Inr (Container 7)))
        (execute demo_context demo_action)))) = []\<close>
proof -
  let ?d = "demo_docker (Inl ImageNotFound) (Inr (Container 7))"
  let ?s = "execute demo_context demo_action"
  have upd: "?d\<lparr>images_pull := \<lambda>r t. Inr ()\<rparr> = demo_docker (Inr ()) (Inr (Container 7))"
    by (simp add: demo_docker_def)
  have 1: "images_pull ?d (repository (policy ?s)) (tag (policy ?s)) = Inl ImageNotFound"
    by (simp add: demo_docker_def)
  have 2: "containers_run ?d (image_name (policy ?s)) (container_name (policy ?s))
             (case run_args (policy ?s) of None \<Rightarrow> [] | Some a \<Rightarrow> a) = Inr (Container 7)"
    by (simp add: demo_docker_def)
  have 3: "start_docker_nodes demo_context ?d ?s =
     (fst (start_docker_nodes demo_context ?d ?s), snd (start_docker_nodes demo_context ?d ?s))"
    by simp
  have 4: "start_docker_nodes demo_context (?d\<lparr>images_pull := \<lambda>r t. Inr ()\<rparr>) ?s =
     (fst (start_docker_nodes demo_context (demo_docker (Inr ()) (Inr (Container 7))) ?s),
      snd (start_docker_nodes demo_context (demo_docker (Inr ()) (Inr (Container 7))) ?s))"
    by (simp add: upd)
  have s: "completed_future ?s = Some (Future 0)" "trace ?s = [RegisterOnShutdown]"
    "image_name (policy ?s) = ustr ''demo_repo:latest''"
    by (simp_all add: execute_def emit_def demo_action_def demo_context_def demo_policy_def)
  have ok: "exec_cmds (trace (snd (start_docker_nodes demo_context
         (demo_docker (Inr ()) (Inr (Container 7))) ?s))) =
       [[ustr ''bash'', ustr ''-c'', ustr ''ros2'', ustr ''run'', ustr ''demo_pkg'', ustr ''talker'']]"
    using demo_started_obs[of "Inr ()"] by simp
  have w: \<open>logged WARN (trace (snd (start_docker_nodes demo_context ?d ?s))) =
     [Format ''Image "{}" could not be pulled but may be found locally.''
        [ArgStr (ustr ''demo_repo:latest'')]]\<close>
    by (simp add: run_defs demo_defs shlex_demo)
  show ?thesis
    using pull_not_found_is_swallowed[OF 1 2 3 4] s ok w by simp
qed

text \<open>
  C6. After a prefix of the stream that the pump has consumed, a chunk that is false
  (\<^verbatim>\<open>None\<close>, empty) adds no record; a generator whose elements all decode adds one
  record per element, each the decoded and stripped text; any other chunk that decodes
  adds exactly one such record, and one that does not decode adds exactly one record that
  names its type instead. A chunk decodes exactly when it is a \<^verbatim>\<open>bytes\<close> object holding
  the UTF-8 encoding of a sequence of scalar values, and the text is that sequence stripped:
  the original without a whitespace prefix and a whitespace suffix, with no whitespace at
  either end.
\<close>

theorem log_chunk_forwarding:
  assumes "handle_logs pre = (Returned, recs)"
  shows "(\<not> truthy log \<longrightarrow> handle_logs (pre @ [log]) = (Returned, recs))
    \<and> (\<forall>ls ts. log = PGen ls \<and> map decode_strip ls = map Inr ts \<longrightarrow>
          handle_logs (pre @ [log]) = (Returned, recs @ map (\<lambda>t. Log INFO (Text t)) ts))
    \<and> (\<forall>t. truthy log \<and> type_of log \<noteq> T_generator \<and> decode_strip log = Inr t \<longrightarrow>
          handle_logs (pre @ [log]) = (Returned, recs @ [Log INFO (Text t)]))
    \<and> (\<forall>e. truthy log \<and> type_of log \<noteq> T_generator \<and> decode_strip log = Inl e \<longrightarrow>
          handle_logs (pre @ [log]) =
            (Returned, recs @ [Log EXCEPTION (Format ''Unable to print log of type {}''
                                               [ArgType (type_of log)])]))
    \<and> (\<forall>x t. decode_strip x = Inr t \<longleftrightarrow>
          (\<exists>bs u. x = PBytes bs \<and> list_all valid_cp u \<and> utf8_encode u = map unat bs
                   \<and> t = strip u))
    \<and> (\<forall>u. (\<exists>a b. u = a @ strip u @ b \<and> list_all isspace a \<and> list_all isspace b)
          \<and> (strip u = [] \<or> \<not> isspace (hd (strip u)) \<and> \<not> isspace (last (strip u))))"
proof (intro conjI allI impI)
  assume "\<not> truthy log"
  with assms show "handle_logs (pre @ [log]) = (Returned, recs)"
    by (simp add: handle_logs_append handle_chunk_def)
next
  fix ls ts
  assume "log = PGen ls \<and> map decode_strip ls = map Inr ts"
  with assms forward_inner_decoded[of ls ts]
  show "handle_logs (pre @ [log]) = (Returned, recs @ map (\<lambda>t. Log INFO (Text t)) ts)"
    by (simp add: handle_logs_append handle_chunk_def)
next
  fix t
  assume "truthy log \<and> type_of log \<noteq> T_generator \<and> decode_strip log = Inr t"
  with assms show "handle_logs (pre @ [log]) = (Returned, recs @ [Log INFO (Text t)])"
    by (cases log) (simp_all add: handle_logs_append handle_chunk_def)
next
  fix e
  assume a: "truthy log \<and> type_of log \<noteq> T_generator \<and> decode_strip log = Inl e"
  then have "handle_logs [log] =
     (Returned, [Log EXCEPTION (Format ''Unable to print log of type {}''
                                  [ArgType (type_of log)])])"
    using plain_chunk_error[of log e "[]"] by simp
  with assms show "handle_logs (pre @ [log]) =
            (Returned, recs @ [Log EXCEPTION (Format ''Unable to print log of type {}''
                                               [ArgType (type_of log)])])"
    by (simp add: handle_logs_append)
next
  fix x t
  show "decode_strip x = Inr t \<longleftrightarrow>
          (\<exists>bs u. x = PBytes bs \<and> list_all valid_cp u \<and> utf8_encode u = map unat bs
                   \<and> t = strip u)"
    by (rule decode_strip_iff)
next
  fix u
  show "\<exists>a b. u = a @ strip u @ b \<and> list_all isspace a \<and> list_all isspace b"
    by (rule strip_infix)
next
  fix u
  show "strip u = [] \<or> \<not> isspace (hd (strip u)) \<and> \<not> isspace (last (strip u))"
    using strip_trimmed[of u] by blast
qed

theorem log_chunk_forwarding_witness:
  "handle_logs [PNone, PBytes []] = (Returned, [])
   \<and> handle_logs [PNone, PGen [PBytes [0x20, 0x61], PBytes [0xC3, 0xA9, 0x0A]]] =
       (Returned, [Log INFO (Text [97]), Log INFO (Text [233])])
   \<and> handle_logs [PNone, PBytes [0x09, 0xC2, 0xA0, 0x68, 0xC3, 0xA9, 0x20, 0xE2, 0x82, 0xAC,
                                  0xF0, 0x9F, 0x98, 0x80, 0x0D, 0x0A]] =
       (Returned, [Log INFO (Text [104, 233, 32, 8364, 128512])])
   \<and> handle_logs [PNone, PInt 5] =
       (Returned, [Log EXCEPTION (Format ''Unable to print log of type {}'' [ArgType T_int])])"
proof -
  have pre: "handle_logs [PNone] = (Returned, [])"
    by (simp add: handle_chunk_def)
  have d1: "map decode_strip [PBytes [0x20, 0x61], PBytes [0xC3, 0xA9, 0x0A]] =
              map Inr [[97], [233]]"
    by (simp add: pump_defs)
  have d2: "decode_strip (PBytes [0x09, 0xC2, 0xA0, 0x68, 0xC3, 0xA9, 0x20, 0xE2, 0x82, 0xAC,
                                  0xF0, 0x9F, 0x98, 0x80, 0x0D, 0x0A]) =
              Inr [104, 233, 32, 8364, 128512]"
    by (simp add: pump_defs)
  have d3: "decode_strip (PInt 5) = Inl AttributeError"
    by simp
  have t1: "\<not> truthy (PBytes [])" by simp
  have g1: "handle_logs ([PNone] @ [PBytes []]) = (Returned, [])"
    using log_chunk_forwarding[OF pre, of "PBytes []"] t1 by blast
  have g2: "handle_logs ([PNone] @ [PGen [PBytes [0x20, 0x61], PBytes [0xC3, 0xA9, 0x0A]]]) =
      (Returned, [] @ map (\<lambda>t. Log INFO (Text t)) [[97], [233]])"
    using log_chunk_forwarding[OF pre, of "PGen [PBytes [0x20, 0x61], PBytes [0xC3, 0xA9, 0x0A]]"] d1
    by blast
  have t3: "truthy (PBytes [0x09, 0xC2, 0xA0, 0x68, 0xC3, 0xA9, 0x20, 0xE2, 0x82, 0xAC,
                                  0xF0, 0x9F, 0x98, 0x80, 0x0D, 0x0A])
      \<and> type_of (PBytes [0x09, 0xC2, 0xA0, 0x68, 0xC3, 0xA9, 0x20, 0xE2, 0x82, 0xAC,
                                  0xF0, 0x9F, 0x98, 0x80, 0x0D, 0x0A]) \<noteq> T_generator"
    by simp
  have g3: "handle_logs ([PNone] @ [PBytes [0x09, 0xC2, 0xA0, 0x68, 0xC3, 0xA9, 0x20, 0xE2, 0x82,
                                  0xAC, 0xF0, 0x9F, 0x98, 0x80, 0x0D, 0x0A]]) =
      (Returned, [] @ [Log INFO (Text [104, 233, 32, 8364, 128512])])"
    using log_chunk_forwarding[OF pre, of "PBytes [0x09, 0xC2, 0xA0, 0x68, 0xC3, 0xA9, 0x20, 0xE2, 0x82, 0xAC,
                                  0xF0, 0x9F, 0x98, 0x80, 0x0D, 0x0A]"] d2 t3
    by blast
  have t4: "truthy (PInt 5) \<and> type_of (PInt 5) \<noteq> T_generator" by simp
  have g4: "handle_logs ([PNone] @ [PInt 5]) =
      (Returned, [] @ [Log EXCEPTION (Format ''Unable to print log of type {}''
                                       [ArgType (type_of (PInt 5))])])"
    using log_chunk_forwarding[OF pre, of "PInt 5"] d3 t4 by blast
  from g1 g2 g3 g4 show ?thesis by simp
qed

text \<open>
  Chunks that forward no decoded line: bytes that are not UTF-8 and a string are each
  reported with one record; inside a generator the element \<^verbatim>\<open>None\<close> ends the pump after
  one of three elements.
\<close>

theorem undecodable_chunk_forwards_no_line:
  "handle_logs [PBytes [0xFF]] =
     (Returned, [Log EXCEPTION (Format ''Unable to print log of type {}'' [ArgType T_bytes])])
   \<and> handle_logs [PStr (ustr ''text'')] =
     (Returned, [Log EXCEPTION (Format ''Unable to print log of type {}'' [ArgType T_str])])
   \<and> handle_logs [PGen [PBytes [0x61], PNone, PBytes [0x62]]] =
     (Raised AttributeError, [Log INFO (Text (ustr ''a''))])"
  by (simp add: pump_defs ustr_def)

text \<open>
  C7. A second run of the shutdown handler leaves the task reference, the future, the
  container and the pool as the first run left them; it only repeats the cancellation
  request of a task that is still referenced.
\<close>

theorem on_shutdown_twice:
  "started_task (on_shutdown (on_shutdown s)) = started_task (on_shutdown s)
   \<and> completed_future (on_shutdown (on_shutdown s)) = completed_future (on_shutdown s)
   \<and> container (on_shutdown (on_shutdown s)) = container (on_shutdown s)
   \<and> executor (on_shutdown (on_shutdown s)) = executor (on_shutdown s)
   \<and> trace (on_shutdown (on_shutdown s)) =
       trace (on_shutdown s) @
         (case started_task (on_shutdown s) of None \<Rightarrow> [] | Some t \<Rightarrow> [TaskCancel t])"
  by (simp add: on_shutdown_def Let_def emit_def split: option.splits)

theorem on_shutdown_twice_witness:
  "started_task (on_shutdown (on_shutdown (execute demo_context demo_action))) =
     Some \<lparr>task_id = 0, cancel_raises = False\<rparr>
   \<and> completed_future (on_shutdown (on_shutdown (execute demo_context demo_action))) = None
   \<and> container (on_shutdown (on_shutdown (execute demo_context demo_action))) = None
   \<and> is_shutdown (executor (on_shutdown (on_shutdown (execute demo_context demo_action))))"
proof -
  have "started_task (on_shutdown (execute demo_context demo_action)) =
     Some \<lparr>task_id = 0, cancel_raises = False\<rparr>
   \<and> completed_future (on_shutdown (execute demo_context demo_action)) = None
   \<and> container (on_shutdown (execute demo_context demo_action)) = None
   \<and> is_shutdown (executor (on_shutdown (execute demo_context demo_action)))"
    by (simp add: run_defs demo_defs)
  with on_shutdown_twice[of "execute demo_context demo_action"] show ?thesis by simp
qed

text \<open>
  C8. In a lifecycle, that is \<^verbatim>\<open>execute\<close> followed by any schedule of task steps and
  shutdown notifications, the future created by \<^verbatim>\<open>execute\<close> is either still set and never
  cancelled, or cleared and cancelled exactly once.
\<close>

theorem future_cancelled_at_most_once:
  "(completed_future (snd (lifecycle ctx d sched s)) = Some (create_future ctx)
      \<and> future_cancels (trace (snd (lifecycle ctx d sched s))) = future_cancels (trace s))
   \<or> (completed_future (snd (lifecycle ctx d sched s)) = None
      \<and> future_cancels (trace (snd (lifecycle ctx d sched s))) =
          future_cancels (trace s) @ [create_future ctx])"
proof -
  have "completed_future (execute ctx s) = Some (create_future ctx)
        \<and> future_cancels (trace (execute ctx s)) = future_cancels (trace s)"
    by (simp add: execute_def emit_def obs_append)
  then have "(completed_future (execute ctx s) = Some (create_future ctx)
        \<and> future_cancels (trace (execute ctx s)) = future_cancels (trace s))
     \<or> (completed_future (execute ctx s) = None
        \<and> future_cancels (trace (execute ctx s)) = future_cancels (trace s) @ [create_future ctx])"
    by simp
  from schedule_future[OF this, of ctx d At_pull sched] show ?thesis
    by (simp add: lifecycle_def)
qed

theorem future_cancelled_at_most_once_witness:
  "completed_future (snd (lifecycle demo_context (demo_docker (Inl ImageNotFound) (Inl ImageNotFound))
       [Task_step, Task_step, Shutdown_event, Task_step, Shutdown_event] demo_action)) = None
   \<and> future_cancels (trace (snd (lifecycle demo_context
       (demo_docker (Inl ImageNotFound) (Inl ImageNotFound))
       [Task_step, Task_step, Shutdown_event, Task_step, Shutdown_event] demo_action))) = [Future 0]"
proof -
  have "completed_future (snd (lifecycle demo_context (demo_docker (Inl ImageNotFound) (Inl ImageNotFound))
       [Task_step, Task_step, Shutdown_event, Task_step, Shutdown_event] demo_action)) = None"
    by (simp add: lifecycle_def run_defs demo_defs)
  with future_cancelled_at_most_once[of demo_context "demo_docker (Inl ImageNotFound) (Inl ImageNotFound)"
       "[Task_step, Task_step, Shutdown_event, Task_step, Shutdown_event]" demo_action]
  show ?thesis by (simp add: demo_action_def demo_context_def)
qed

text \<open>
  C9. Without a container, \<^verbatim>\<open>_load_nodes_in_docker\<close> returns after one error record and
  changes nothing else: no command is executed and no worker is submitted.
\<close>

theorem load_nodes_without_container:
  assumes "container s = None"
  shows "fst (load_nodes_in_docker ctx d s) = Returned
    \<and> snd (load_nodes_in_docker ctx d s) =
        s\<lparr>trace := trace s @ [Logged (Log ERROR (Text (ustr
             ''Unable to load nodes into Docker container: no active Docker container!'')))]\<rparr>
    \<and> logged ERROR (trace (snd (load_nodes_in_docker ctx d s))) =
        logged ERROR (trace s) @ [Text (ustr
             ''Unable to load nodes into Docker container: no active Docker container!'')]
    \<and> exec_cmds (trace (snd (load_nodes_in_docker ctx d s))) = exec_cmds (trace s)
    \<and> workers (trace (snd (load_nodes_in_docker ctx d s))) = workers (trace s)"
  using assms
  by (simp add: load_nodes_in_docker_def no_container_error_def logger_def emit_def obs_append)

theorem load_nodes_without_container_witness:
  "fst (load_nodes_in_docker demo_context (demo_docker (Inr ()) (Inr (Container 7)))
          demo_action) = Returned
   \<and> trace (snd (load_nodes_in_docker demo_context (demo_docker (Inr ()) (Inr (Container 7)))
          demo_action)) =
       [Logged (Log ERROR (Text (ustr
             ''Unable to load nodes into Docker container: no active Docker container!'')))]
   \<and> exec_cmds (trace (snd (load_nodes_in_docker demo_context
          (demo_docker (Inr ()) (Inr (Container 7))) demo_action))) = []
   \<and> workers (trace (snd (load_nodes_in_docker demo_context
          (demo_docker (Inr ()) (Inr (Container 7))) demo_action))) = []"
proof -
  have c: "container demo_action = None" "trace demo_action = []"
    by (simp_all add: demo_action_def)
  show ?thesis
    using load_nodes_without_container[OF c(1), of demo_context
        "demo_docker (Inr ()) (Inr (Container 7))"] c(2)
    by simp
qed

text \<open>
  C10. The constructor raises on an empty list of node descriptions, so an instance has at
  least one node, and its pool has one worker slot per node.
\<close>

theorem init_rejects_empty_node_list:
  "init p [] = Inl (ValueError ''max_workers must be greater than 0'')
   \<and> (\<forall>s. init p nodes = Inr s \<longrightarrow>
          nodes \<noteq> [] \<and> node_descriptions s = nodes
          \<and> 1 \<le> length (node_descriptions s)
          \<and> max_workers (executor s) = int (length nodes))"
  by (cases nodes) (auto simp add: init_def ThreadPoolExecutor_def split: if_splits)

theorem init_rejects_empty_node_list_witness:
  "init demo_policy ([] :: pystr sandboxed_node list) =
     Inl (ValueError ''max_workers must be greater than 0'')
   \<and> init demo_policy [demo_node] = Inr demo_action
   \<and> node_descriptions demo_action = [demo_node]"
  using init_rejects_empty_node_list[of demo_policy "[demo_node]"] init_demo
  by (simp add: demo_action_def)

end
